theory Spec2Isabelle
  imports Main "HOL-Library.Word"
begin

section \<open>ESNIKeys and ECHOConfig builders: a shallow embedding\<close>

text \<open>
  The development follows \<^verbatim>\<open>esnistuff/mk_esnikeys.c\<close> and \<^verbatim>\<open>apps/echo.c\<close>.
  Binary buffers (\<^verbatim>\<open>unsigned char[]\<close>) are lists of 8-bit words, C strings are
  \<^typ>\<open>string\<close>s holding the characters before the terminating NUL. Every way a run
  can end other than by delivering its result is a value of \<open>failure\<close>.
\<close>

type_synonym byte = "8 word"

datatype failure =
    Exit nat      \<comment> \<open>the process calls \<^verbatim>\<open>exit(n)\<close> (also through \<^verbatim>\<open>usage()\<close>, which exits with 1)\<close>
  | Return nat    \<comment> \<open>the function returns this value, which is not its success value\<close>
  | Mem_fault     \<comment> \<open>an access outside the object: the C program has no defined behaviour\<close>

definition MAX_ESNIKEYS_BUFLEN :: nat where
  "MAX_ESNIKEYS_BUFLEN = 1024"

definition MAX_ESNI_COVER_NAME :: nat where
  "MAX_ESNI_COVER_NAME = 254"

definition MAX_ESNI_ADDRS :: nat where
  "MAX_ESNI_ADDRS = 16"

definition byte_of_char :: "char \<Rightarrow> byte" where
  "byte_of_char c = of_nat (of_char c)"

subsection \<open>The address list (\<^verbatim>\<open>add2alist\<close>)\<close>

text \<open>
  \<^verbatim>\<open>strncmp(s1, s2, n)\<close> on NUL-terminated strings: at most \<open>n\<close> characters are
  compared, the comparison stops at the first difference or at a terminator, and the
  result is the difference of the two characters found there (0 when none differ).
\<close>

fun strncmp :: "string \<Rightarrow> string \<Rightarrow> nat \<Rightarrow> int" where
  "strncmp s1 s2 0 = 0"
| "strncmp [] [] (Suc n) = 0"
| "strncmp [] (y # ys) (Suc n) = - int (of_char y)"
| "strncmp (x # xs) [] (Suc n) = int (of_char x)"
| "strncmp (x # xs) (y # ys) (Suc n) =
     (if x = y then strncmp xs ys n else int (of_char x) - int (of_char y))"

text \<open>The scan \<^verbatim>\<open>for (i=0;i!=nips;i++) if (!strncmp(ips[i],line,strlen(line))) ...\<close>.\<close>

fun found_in :: "string list \<Rightarrow> string \<Rightarrow> bool" where
  "found_in [] line = False"
| "found_in (ip # ips) line =
     (if strncmp ip line (length line) = 0 then True else found_in ips line)"

text \<open>
  \<^verbatim>\<open>add2alist(ips, &nips, line)\<close>. The array \<^verbatim>\<open>ips[0..nips-1]\<close> is the list; the
  result is the return value (0 added, 1 already present) with the new list. Both
  callers pass non-null pointers, so the \<^verbatim>\<open>-1\<close> return is not a branch here, and
  the final \<^verbatim>\<open>-2\<close> is unreachable because every path that falls through sets
  \<^verbatim>\<open>added\<close>.
\<close>

definition add2alist :: "string list \<Rightarrow> string \<Rightarrow> failure + (int \<times> string list)" where
  "add2alist ips line =
     (if length ips = 0 then Inr (0, [line])
      else if found_in ips line then Inr (1, ips)
      else if length ips = MAX_ESNI_ADDRS then Inl (Exit 1)
      else Inr (0, ips @ [line]))"

text \<open>
  Both callers feed their strings to \<^verbatim>\<open>add2alist\<close> one by one and exit with status 1
  when it returns a negative value.
\<close>

fun add_all :: "string list \<Rightarrow> string list \<Rightarrow> failure + string list" where
  "add_all ips [] = Inr ips"
| "add_all ips (line # rest) =
     (case add2alist ips line of
        Inl e \<Rightarrow> Inl e
      | Inr (rv, ips') \<Rightarrow> if rv < 0 then Inl (Exit 1) else add_all ips' rest)"

subsection \<open>What the program reads from its surroundings\<close>

text \<open>
  The parsed command line (the variables the \<^verbatim>\<open>getopt\<close> loop of \<^verbatim>\<open>mk_esnikeys\<close> sets;
  \<open>None\<close> is a \<^verbatim>\<open>NULL\<close> pointer) and the collaborators whose code is outside the two
  source files: the file system, the resolver, the address parser, the key provider,
  the clock, the digest and the output files. \<open>ESNI_RRTYPE\<close> is a macro of \<^verbatim>\<open>openssl/esni.h\<close>.
\<close>

record options =
  pubfname :: "string option"
  privfname :: "string option"
  fragfname :: "string option"
  ekversion :: "16 word"
  cover_name :: "string option"
  includeaddrset :: bool
  asetfname :: "string option"
  duration :: int

record world =
  file_lines :: "string \<Rightarrow> string list option"
    \<comment> \<open>\<^verbatim>\<open>fopen(name,"r")\<close> and the lines \<^verbatim>\<open>getline\<close> then delivers, each with its newline\<close>
  getaddrinfo :: "string \<Rightarrow> string list option"
    \<comment> \<open>the addresses found for a host name, each printed by \<^verbatim>\<open>inet_ntop\<close>\<close>
  inet_pton :: "bool \<Rightarrow> string \<Rightarrow> byte list option"
    \<comment> \<open>the bytes written for a literal (\<open>True\<close>: \<^verbatim>\<open>AF_INET6\<close>), \<open>None\<close> when the result is not 1\<close>
  public_share :: "string \<Rightarrow> failure + byte list"
    \<comment> \<open>lines 532-603: the encoded public point of the key read from or written to the
        named private key file, or the exit taken there\<close>
  clock :: int
    \<comment> \<open>\<^verbatim>\<open>time(0)\<close>\<close>
  SHA256 :: "byte list \<Rightarrow> 256 word option"
    \<comment> \<open>the 256-bit digest, \<open>None\<close> when the allocation or one of Init, Update, Final fails\<close>
  fopen_w :: "string \<Rightarrow> bool"
    \<comment> \<open>\<^verbatim>\<open>fopen(name,"wb")\<close> or \<^verbatim>\<open>fopen(name,"w")\<close> gives a stream\<close>
  fwrite_all :: "string \<Rightarrow> bool"
    \<comment> \<open>\<^verbatim>\<open>fwrite\<close> to the named file writes every byte it is given\<close>
  ESNI_RRTYPE :: nat

definition maxduration :: int where
  "maxduration = (60 * 60 * 24 * 7) * 52 * 10"

definition minduration :: int where
  "minduration = 3600"

subsection \<open>The cover name (lines 377-397)\<close>

text \<open>
  The result is \<^verbatim>\<open>cnlen\<close> and the contents of the array \<^verbatim>\<open>cover_name\<close> points to,
  terminator included, after the trailing dot has been overwritten in place. For
  \<^verbatim>\<open>0xff01\<close> the pointer is \<^verbatim>\<open>NULL\<close> (checked before) and nothing reads it. With an
  empty name \<^verbatim>\<open>cover_name[cnlen-1]\<close> reads outside the string.
\<close>

definition c_str :: "string \<Rightarrow> string" where
  "c_str buf = takeWhile (\<lambda>c. c \<noteq> CHR 0x00) buf"

definition check_version :: "options \<Rightarrow> failure + (nat \<times> string)" where
  "check_version opt =
     (if ekversion opt = 0xff01 then Inr (0, [])
      else if ekversion opt = 0xff02 then
        (case cover_name opt of
           None \<Rightarrow> Inl (Exit 1)
         | Some name \<Rightarrow>
             (let cnlen = length name; buf = name @ [CHR 0x00] in
              if cnlen > MAX_ESNI_COVER_NAME then Inl (Exit 1)
              else if cnlen = 0 then Inl Mem_fault
              else if buf ! (cnlen - 1) = CHR ''.''
                then Inr (cnlen, buf[cnlen - 1 := CHR 0x00])
                else Inr (cnlen, buf)))
      else Inl (Exit 1))"

subsection \<open>The AddressSet extension (lines 399-530)\<close>

text \<open>The loop over the lines of the address file.\<close>

fun read_lines :: "string list \<Rightarrow> string list \<Rightarrow> failure + string list" where
  "read_lines ips [] = Inr ips"
| "read_lines ips (line # rest) =
     (if take 1 line = ''#'' then read_lines ips rest
      else (case add2alist ips (butlast line) of
              Inl e \<Rightarrow> Inl e
            | Inr (rv, ips') \<Rightarrow> if rv < 0 then Inl (Exit 1) else read_lines ips' rest))"

text \<open>The loop that fills \<^verbatim>\<open>tmpebuf\<close>; \<open>acc\<close> is \<^verbatim>\<open>tmpebuf[0 .. tp-tmpebuf-1]\<close>.\<close>

fun encode_addrs ::
  "(bool \<Rightarrow> string \<Rightarrow> byte list option) \<Rightarrow> string list \<Rightarrow> byte list \<Rightarrow> failure + byte list" where
  "encode_addrs pton [] acc = Inr acc"
| "encode_addrs pton (ip # ips) acc =
     (let v6 = (CHR '':'' \<in> set ip) in
      case pton v6 ip of
        None \<Rightarrow> Inl (Exit 1)
      | Some a \<Rightarrow>
          (let acc' = acc @ [if v6 then 0x06 else 0x04] @ a in
           if length acc' > MAX_ESNIKEYS_BUFLEN - 100 then Inl (Exit 1)
           else encode_addrs pton ips acc'))"

definition collect_addrs :: "world \<Rightarrow> options \<Rightarrow> nat \<Rightarrow> string \<Rightarrow> failure + string list" where
  "collect_addrs w opt cnlen cover =
     (case asetfname opt of
        Some f \<Rightarrow>
          (case file_lines w f of
             None \<Rightarrow> Inl (Exit 1)
           | Some ls \<Rightarrow> read_lines [] ls)
      | None \<Rightarrow>
          if cnlen = 0 then Inl (Exit 1)
          else (case getaddrinfo w (c_str cover) of
                  None \<Rightarrow> Inl (Exit 1)
                | Some astrs \<Rightarrow> add_all [] astrs))"

text \<open>The result is \<^verbatim>\<open>extvals[0 .. extlen-1]\<close>, empty when no extension was asked for.\<close>

definition address_set :: "world \<Rightarrow> options \<Rightarrow> nat \<Rightarrow> string \<Rightarrow> failure + byte list" where
  "address_set w opt cnlen cover =
     (if ekversion opt = 0xff02 \<and> includeaddrset opt then
        (case collect_addrs w opt cnlen cover of
           Inl e \<Rightarrow> Inl e
         | Inr ips \<Rightarrow>
             (case encode_addrs (inet_pton w) ips [] of
                Inl e \<Rightarrow> Inl e
              | Inr tmpebuf \<Rightarrow>
                  (let nelen = length tmpebuf; exttype = (0x1001 :: nat) in
                   if nelen > 0xffff then Inl (Exit 1)
                   else Inr ([of_nat ((nelen + 4) div 256), of_nat (nelen + 3),
                              of_nat (exttype div 256), of_nat exttype,
                              of_nat (nelen div 256), of_nat nelen] @ tmpebuf))))
      else Inr [])"

subsection \<open>The checksum (\<^verbatim>\<open>esni_checksum_gen\<close>)\<close>

text \<open>The 32 bytes \<^verbatim>\<open>SHA256_Final\<close> stores in \<^verbatim>\<open>md\<close>, most significant first.\<close>

definition digest_bytes :: "256 word \<Rightarrow> byte list" where
  "digest_bytes d = map (\<lambda>i. ucast (drop_bit (8 * (31 - i)) d)) [0..<32]"

text \<open>
  \<open>Inr cksum\<close> is the return value 1 with the four bytes stored in \<^verbatim>\<open>cksum\<close>,
  \<open>Inl (Return 0)\<close> the return value 0. \<^verbatim>\<open>memset(buf_zeros+2,0,4)\<close> needs six bytes.
\<close>

definition esni_checksum_gen ::
  "(byte list \<Rightarrow> 256 word option) \<Rightarrow> byte list \<Rightarrow> failure + byte list" where
  "esni_checksum_gen sha buf =
     (if length buf < 6 then Inl Mem_fault
      else (let buf_zeros = take 2 buf @ replicate 4 0 @ drop 6 buf in
            case sha buf_zeros of
              None \<Rightarrow> Inl (Return 0)
            | Some d \<Rightarrow> Inr (take 4 (digest_bytes d))))"

subsection \<open>The zone fragment (\<^verbatim>\<open>fp_esni_prr\<close>)\<close>

text \<open>\<^verbatim>\<open>%d\<close> and \<^verbatim>\<open>%ld\<close> of a value that is not negative, and \<^verbatim>\<open>%02x\<close> of a byte.\<close>

definition digit_char :: "nat \<Rightarrow> char" where
  "digit_char n = ''0123456789abcdef'' ! n"

fun dec :: "nat \<Rightarrow> string" where
  "dec n = (if n < 10 then [digit_char n] else dec (n div 10) @ [digit_char (n mod 10)])"

declare dec.simps [simp del]

definition hex2 :: "byte \<Rightarrow> string" where
  "hex2 b = [digit_char (unat b div 16), digit_char (unat b mod 16)]"

text \<open>
  The loop \<^verbatim>\<open>for (i=0;i!=blen;i++)\<close> of the folded form: \<open>bs\<close> is what is left of the
  buffer from index \<open>i\<close> on. The format of a new line is a newline, the padding and
  eighteen spaces.
\<close>

fun fold_hex :: "string \<Rightarrow> byte list \<Rightarrow> nat \<Rightarrow> string" where
  "fold_hex padding [] i = []"
| "fold_hex padding (b # bs) i =
     (if i mod 16 = 0 then CHR 0x0A # padding @ replicate 18 (CHR '' '')
      else if i mod 2 = 0 then '' ''
      else []) @ hex2 b @ fold_hex padding bs (Suc i)"

text \<open>\<^verbatim>\<open>"%s. IN TYPE%d \\# %ld "\<close> without its last character, which the two forms do not share.\<close>

definition rr_header :: "string \<Rightarrow> nat \<Rightarrow> nat \<Rightarrow> string" where
  "rr_header owner_name typecode blen =
     owner_name @ ''. IN TYPE'' @ dec typecode @ [CHR '' '', CHR 0x5C, CHR ''#'', CHR '' '']
       @ dec blen"

text \<open>
  The text written to the file. \<^verbatim>\<open>padding\<close> has room for
  \<^verbatim>\<open>MAX_ESNI_COVER_NAME\<close> spaces and the terminator.
\<close>

definition fp_esni_prr :: "byte list option \<Rightarrow> nat \<Rightarrow> string \<Rightarrow> failure + string" where
  "fp_esni_prr buf typecode owner_name =
     (case buf of
        None \<Rightarrow> Inl (Exit 9)
      | Some bs \<Rightarrow>
          if length bs > 16 then
            (if length owner_name > MAX_ESNI_COVER_NAME then Inl Mem_fault
             else (let padding = replicate (length owner_name) (CHR '' '') in
                   Inr (rr_header owner_name typecode (length bs) @ '' (''
                        @ fold_hex padding bs 0 @ '' )'' @ [CHR 0x0A])))
          else Inr (rr_header owner_name typecode (length bs) @ '' ''
                    @ concat (map hex2 bs) @ [CHR 0x0A]))"

text \<open>
  \<^verbatim>\<open>so_esni_prr\<close>, the same record on standard output: a first line with the message
  and the length, then the two forms of \<^verbatim>\<open>fp_esni_prr\<close> character for character. A
  \<^verbatim>\<open>NULL\<close> buffer is reported and the function returns.
\<close>

definition so_esni_prr ::
  "string \<Rightarrow> byte list option \<Rightarrow> nat \<Rightarrow> string \<Rightarrow> failure + string" where
  "so_esni_prr msg buf typecode owner_name =
     (case buf of
        None \<Rightarrow> Inr (''OPENSSL: '' @ msg @ '' is NULL'')
      | Some bs \<Rightarrow>
          (case fp_esni_prr (Some bs) typecode owner_name of
             Inl e \<Rightarrow> Inl e
           | Inr t \<Rightarrow>
               Inr (''OPENSSL: '' @ msg @ '' ('' @ dec (length bs) @ ''):'' @ [CHR 0x0A] @ t)))"

subsection \<open>The ESNIKeys structure (\<^verbatim>\<open>mk_esnikeys\<close>)\<close>

text \<open>Lines 648-691: the buffer \<^verbatim>\<open>bbuf[0 .. bblen-1]\<close> before the checksum is stored.\<close>

definition time_bytes :: "int \<Rightarrow> byte list" where
  "time_bytes t =
     replicate 4 0 @ [of_int (t div 2 ^ 24), of_int (t div 2 ^ 16), of_int (t div 2 ^ 8), of_int t]"

definition assemble ::
  "16 word \<Rightarrow> nat \<Rightarrow> string \<Rightarrow> byte list \<Rightarrow> int \<Rightarrow> int \<Rightarrow> byte list \<Rightarrow> byte list" where
  "assemble version cnlen cover public nb na extvals =
     [of_nat (unat version div 256), of_nat (unat version)] @ replicate 4 0
     @ (if version = 0xff02
        then [of_nat (cnlen div 256), of_nat cnlen] @ map byte_of_char (take cnlen cover)
        else [])
     @ [0x00, 0x24, 0x00, 0x1d, 0x00, 0x20] @ take 32 public
     @ [0x00, 0x02, 0x13, 0x01, 0x01, 0x04]
     @ time_bytes nb @ time_bytes na
     @ (if length extvals = 0 then [0x00, 0x00] else extvals)"

text \<open>Lines 532-534: the default name of the private key file.\<close>

definition priv_file :: "options \<Rightarrow> string" where
  "priv_file opt = (case privfname opt of None \<Rightarrow> ''esnikeys.priv'' | Some f \<Rightarrow> f)"

text \<open>Lines 703-705 and 720-722: the default names of the two output files.\<close>

definition pub_file :: "options \<Rightarrow> string" where
  "pub_file opt = (case pubfname opt of None \<Rightarrow> ''esnikeys.pub'' | Some f \<Rightarrow> f)"

definition frag_file :: "options \<Rightarrow> string" where
  "frag_file opt = (case fragfname opt of None \<Rightarrow> ''zonedata.fragment'' | Some f \<Rightarrow> f)"

text \<open>
  The whole run after option parsing. The result is the contents written to the public
  key file and, for \<^verbatim>\<open>0xff02\<close>, the text written to the zone fragment file. The run
  exits with 7 when an output file cannot be opened and with 8 when the structure is not
  written in full. What goes to standard output is no part of the result.
\<close>

definition mk_esnikeys :: "world \<Rightarrow> options \<Rightarrow> failure + (byte list \<times> string option)" where
  "mk_esnikeys w opt =
     (if ekversion opt = 0xff01 \<and> cover_name opt \<noteq> None then Inl (Exit 1)
      else if ekversion opt = 0xff01 \<and> includeaddrset opt then Inl (Exit 1)
      else if duration opt \<le> 0 then Inl (Exit 1)
      else if duration opt \<ge> maxduration then Inl (Exit 1)
      else if duration opt < minduration then Inl (Exit 1)
      else
       (case check_version opt of
          Inl e \<Rightarrow> Inl e
        | Inr (cnlen, cover) \<Rightarrow>
       (case address_set w opt cnlen cover of
          Inl e \<Rightarrow> Inl e
        | Inr extvals \<Rightarrow>
       (case public_share w (priv_file opt) of
          Inl e \<Rightarrow> Inl e
        | Inr public \<Rightarrow>
            if length public = 0 then Inl (Exit 4)
            else if length public < 32 then Inl Mem_fault
            else
              (let nb = clock w - 1;
                   na = nb + duration opt;
                   bbuf = assemble (ekversion opt) cnlen cover public nb na extvals
               in
               if length bbuf > MAX_ESNIKEYS_BUFLEN then Inl Mem_fault
               else
                (case esni_checksum_gen (SHA256 w) bbuf of
                   Inl Mem_fault \<Rightarrow> Inl Mem_fault
                 | Inl _ \<Rightarrow> Inl (Exit 7)
                 | Inr cksum \<Rightarrow>
                     (let out = take 2 bbuf @ cksum @ drop 6 bbuf in
                      if \<not> fopen_w w (pub_file opt) then Inl (Exit 7)
                      else if \<not> fwrite_all w (pub_file opt) then Inl (Exit 8)
                      else if ekversion opt = 0xff02 then
                        (case so_esni_prr ''BP+cksum as DNS RR'' (Some out) (ESNI_RRTYPE w)
                                (c_str cover) of
                           Inl e \<Rightarrow> Inl e
                         | Inr shown \<Rightarrow>
                             if \<not> fopen_w w (frag_file opt) then Inl (Exit 7)
                             else
                              (case fp_esni_prr (Some out) (ESNI_RRTYPE w) (c_str cover) of
                                 Inl e \<Rightarrow> Inl e
                               | Inr frag \<Rightarrow> Inr (out, Some frag)))
                      else Inr (out, None))))))))"

subsection \<open>The ECHOConfig structure (\<^verbatim>\<open>mk_echoconfig\<close>)\<close>

text \<open>
  What \<^verbatim>\<open>apps/echo.c\<close> takes from headers and from the HPKE library: two macros, and
  the outcome of \<^verbatim>\<open>hpke_kg\<close> (\<open>None\<close> when its result is not 1, else the contents of
  the array \<^verbatim>\<open>pub\<close> and the private key).
\<close>

record echo_world =
  MAX_ECHOCONFIGS_BUFLEN :: nat
  HPKE_KEM_ID_25519 :: nat
  hpke_kg :: "(byte list \<times> byte list) option"

text \<open>
  Modelled from the spec: \<^verbatim>\<open>EVP_EncodeBlock\<close>, the library's Base64 encoder, is not
  among the sources; the spec calls it a standard Base64 encoder. It stores the
  encoding and a terminating zero in the destination and returns the length of the
  encoding; \<open>base64\<close> is the encoding.
\<close>

definition b64_char :: "nat \<Rightarrow> char" where
  "b64_char n =
     ''ABCDEFGHIJKLMNOPQRSTUVWXYZabcdefghijklmnopqrstuvwxyz0123456789+/'' ! n"

fun base64 :: "byte list \<Rightarrow> string" where
  "base64 [] = []"
| "base64 [a] =
     [b64_char (unat a div 4), b64_char (unat a mod 4 * 16), CHR ''='', CHR ''='']"
| "base64 [a, b] =
     [b64_char (unat a div 4), b64_char (unat a mod 4 * 16 + unat b div 16),
      b64_char (unat b mod 16 * 4), CHR ''='']"
| "base64 (a # b # c # rest) =
     [b64_char (unat a div 4), b64_char (unat a mod 4 * 16 + unat b div 16),
      b64_char (unat b mod 16 * 4 + unat c div 64), b64_char (unat c mod 64)] @ base64 rest"

text \<open>
  Lines 133-177: the buffer \<^verbatim>\<open>bbuf[0 .. bblen-1]\<close>. \<open>name\<close> holds the \<^verbatim>\<open>pnlen\<close>
  characters of \<^verbatim>\<open>public_name\<close> (none for a \<^verbatim>\<open>NULL\<close> pointer). \<^verbatim>\<open>extlen\<close> is the
  constant 0 there, so the branch that copies \<^verbatim>\<open>extvals\<close> is never taken.
\<close>

definition echo_assemble :: "nat \<Rightarrow> 16 word \<Rightarrow> string \<Rightarrow> byte list \<Rightarrow> byte list" where
  "echo_assemble kem_id version name pub =
     (let pnlen = length name in
      [of_nat (unat version div 256), of_nat (unat version)]
      @ (if version = 0xff01 \<or> version = 0xff02 then replicate 4 0 else [])
      @ (if pnlen > 0 \<and> (version = 0xff02 \<or> version = 0xff03)
         then [of_nat (pnlen div 256), of_nat pnlen] @ map byte_of_char name
         else [])
      @ [0x00, 0x24, 0x00, 0x1d, 0x00, 0x20] @ take 32 pub
      @ [of_nat (kem_id div 16), of_nat (kem_id mod 16)]
      @ [0x00, 0x02, 0x13, 0x01]
      @ [0x01, 0x04]
      @ [0x00, 0x00])"

text \<open>Line 82: the characters \<^verbatim>\<open>pnlen\<close> counts.\<close>

definition name_chars :: "string option \<Rightarrow> string" where
  "name_chars public_name = (case public_name of None \<Rightarrow> [] | Some n \<Rightarrow> n)"

text \<open>
  The result on success: \<open>config_bytes\<close> is the local \<^verbatim>\<open>bbuf\<close> that was encoded,
  \<open>echoconfig\<close> the bytes stored in the destination (the terminator is the last),
  \<open>echoconfig_len\<close> and \<open>priv\<close> what the two out parameters hold.
\<close>

record echo_result =
  config_bytes :: "byte list"
  echoconfig :: string
  echoconfig_len :: nat
  priv :: "byte list"

text \<open>
  \<open>capacity\<close> is \<^verbatim>\<open>*echoconfig_len\<close> on entry, the size of the array \<^verbatim>\<open>echoconfig\<close>
  points to; \<open>priv_null\<close> says that \<^verbatim>\<open>priv\<close> is \<^verbatim>\<open>NULL\<close>. The failures are the
  \<^verbatim>\<open>__LINE__\<close> values the function returns. \<^verbatim>\<open>EVP_EncodeBlock\<close> has written the
  encoding and its terminator before the length is compared with the capacity.
\<close>

definition mk_echoconfig ::
  "echo_world \<Rightarrow> 16 word \<Rightarrow> string option \<Rightarrow> nat \<Rightarrow> bool \<Rightarrow> failure + echo_result" where
  "mk_echoconfig w version public_name capacity priv_null =
     (if version = 0xff01 \<or> version = 0xff02 then Inl (Return 0)
      else if version \<noteq> 0xff03 then Inl (Return 0)
      else if priv_null then Inl (Return 95)
      else
       (case hpke_kg w of
          None \<Rightarrow> Inl (Return 104)
        | Some (pub, privkey) \<Rightarrow>
            if length pub < 32 then Inl Mem_fault
            else
              (let bbuf = echo_assemble (HPKE_KEM_ID_25519 w) version
                            (name_chars public_name) pub
               in
               if length bbuf > MAX_ECHOCONFIGS_BUFLEN w then Inl Mem_fault
               else
                (let b64 = base64 bbuf; b64len = length b64 in
                 if b64len + 1 > capacity then Inl Mem_fault
                 else if b64len \<ge> capacity - 1 then Inl (Return 181)
                 else Inr \<lparr>config_bytes = bbuf, echoconfig = b64 @ [CHR 0x00],
                           echoconfig_len = b64len, priv = privkey\<rparr>))))"

section \<open>Reading a structure back, and sample runs\<close>

text \<open>
  The sources hold no decoder. These follow the field descriptions of the wire format:
  a name field is a 2-byte big-endian length and that many bytes; a key-share entry
  opens with the length 36, the curve 29 and the key length 32.
\<close>

definition read_name_field :: "nat \<Rightarrow> byte list \<Rightarrow> byte list" where
  "read_name_field off buf =
     take (256 * unat (buf ! off) + unat (buf ! (off + 1))) (drop (off + 2) buf)"

definition name_field_at :: "nat \<Rightarrow> byte list \<Rightarrow> byte list \<Rightarrow> bool" where
  "name_field_at off buf name =
     (off + 2 + length name \<le> length buf
      \<and> 256 * unat (buf ! off) + unat (buf ! (off + 1)) = length name
      \<and> take (length name) (drop (off + 2) buf) = name)"

definition key_share_at :: "nat \<Rightarrow> byte list \<Rightarrow> byte list \<Rightarrow> bool" where
  "key_share_at off buf key =
     (take 38 (drop off buf) = [0x00, 0x24, 0x00, 0x1d, 0x00, 0x20] @ key \<and> length key = 32)"

text \<open>The lines of a text, split at its newlines, and the spaces a line starts with.\<close>

fun lines_of :: "string \<Rightarrow> string list" where
  "lines_of [] = [[]]"
| "lines_of (c # cs) =
     (if c = CHR 0x0A then [] # lines_of cs
      else (case lines_of cs of [] \<Rightarrow> [[c]] | l # ls \<Rightarrow> (c # l) # ls))"

definition indent :: "string \<Rightarrow> nat" where
  "indent l = length (takeWhile (\<lambda>c. c = CHR '' '') l)"

text \<open>
  The lines of a zone fragment after its first: the text ends with a newline, so the
  last element of \<open>lines_of\<close> is the empty rest behind it.
\<close>

definition continuation_lines :: "string \<Rightarrow> string list" where
  "continuation_lines out = butlast (tl (lines_of out))"

text \<open>What a run delivered, if it delivered.\<close>

definition emitted :: "failure + (byte list \<times> string option) \<Rightarrow> byte list option" where
  "emitted r = (case r of Inl e \<Rightarrow> None | Inr (out, frag) \<Rightarrow> Some out)"

definition encoded :: "failure + echo_result \<Rightarrow> byte list option" where
  "encoded r = (case r of Inl e \<Rightarrow> None | Inr res \<Rightarrow> Some (config_bytes res))"

text \<open>
  Sample surroundings: a key provider that delivers 32 bytes of 7, a digest stand-in
  that depends on every byte of its input, the clock at 1000, no address file, output
  files that can be written.
\<close>

definition sample_digest :: "byte list \<Rightarrow> 256 word option" where
  "sample_digest xs = Some (of_nat (length xs + sum_list (map unat xs)) * (2 ^ 224 + 1))"

definition sample_world :: world where
  "sample_world =
     \<lparr>file_lines = (\<lambda>f. None), getaddrinfo = (\<lambda>h. None), inet_pton = (\<lambda>v s. None),
      public_share = (\<lambda>f. Inr (replicate 32 7)), clock = 1000,
      SHA256 = sample_digest, fopen_w = (\<lambda>f. True), fwrite_all = (\<lambda>f. True),
      ESNI_RRTYPE = 65439\<rparr>"

definition sample_options :: options where
  "sample_options =
     \<lparr>pubfname = None, privfname = None, fragfname = None, ekversion = 0xff02,
      cover_name = Some ''ab'', includeaddrset = False, asetfname = None,
      duration = 604800\<rparr>"

definition sample_echo_world :: echo_world where
  "sample_echo_world =
     \<lparr>MAX_ECHOCONFIGS_BUFLEN = 2000, HPKE_KEM_ID_25519 = 0x20,
      hpke_kg = Some (replicate 32 7, [1, 2, 3])\<rparr>"

definition later_world :: world where
  "later_world = sample_world\<lparr>clock := 1000 + 2 ^ 32\<rparr>"

definition renamed_options :: options where
  "renamed_options =
     sample_options\<lparr>pubfname := Some ''a.pub'', fragfname := Some ''a.frag''\<rparr>"

definition dotted_options :: options where
  "dotted_options = sample_options\<lparr>cover_name := Some ''ab.''\<rparr>"

definition seventeen_addrs :: "string list" where
  "seventeen_addrs =
     [''10.0.0.10'', ''10.0.0.11'', ''10.0.0.12'', ''10.0.0.13'', ''10.0.0.14'',
      ''10.0.0.15'', ''10.0.0.16'', ''10.0.0.17'', ''10.0.0.18'', ''10.0.0.19'',
      ''10.0.0.20'', ''10.0.0.21'', ''10.0.0.22'', ''10.0.0.23'', ''10.0.0.24'',
      ''10.0.0.25'', ''10.0.0.1'']"

section \<open>The address list\<close>

text \<open>
  C3. An address is to be dropped only when it equals one already accepted. The scan
  compares only the first \<^verbatim>\<open>strlen(line)\<close> characters, so \<^verbatim>\<open>10.0.0.1\<close> arriving after
  \<^verbatim>\<open>10.0.0.11\<close> is reported as already present (return value 1) and is not added,
  although the two strings differ.
\<close>

theorem add2alist_drops_proper_prefix:
  "add2alist [''10.0.0.11''] ''10.0.0.1'' = Inr (1, [''10.0.0.11''])
   \<and> ''10.0.0.11'' \<noteq> ''10.0.0.1''
   \<and> add_all [] [''10.0.0.11'', ''10.0.0.1''] = Inr [''10.0.0.11'']"
  by (simp add: add2alist_def MAX_ESNI_ADDRS_def)

text \<open>
  C6. Seventeen distinct addresses are to end the run with the too-many-addresses exit.
  When one of them is a prefix of an earlier one it is dropped as present, the limit is
  never reached, and the run goes on with the sixteen others, whether the strings come
  from the resolver or as the lines of the address file.
\<close>

theorem seventeen_distinct_addrs_accepted:
  "distinct seventeen_addrs \<and> length seventeen_addrs = 17
   \<and> add_all [] seventeen_addrs = Inr (take 16 seventeen_addrs)
   \<and> read_lines [] (map (\<lambda>a. a @ [CHR 0x0A]) seventeen_addrs)
       = Inr (take 16 seventeen_addrs)"
  by (simp add: seventeen_addrs_def add2alist_def MAX_ESNI_ADDRS_def)

section \<open>The ESNIKeys build\<close>

subsection \<open>What a successful run went through\<close>

lemma length_digest_bytes: "length (digest_bytes d) = 32"
  by (simp add: digest_bytes_def)

lemma assemble_zeroed:
  "take 2 (assemble v c cv p nb na e) @ replicate 4 0 @ drop 6 (assemble v c cv p nb na e)
     = assemble v c cv p nb na e"
  by (simp add: assemble_def)

lemma assemble_length_ge: "6 \<le> length (assemble v c cv p nb na e)"
  by (simp add: assemble_def)

lemma mk_esnikeys_InrD:
  assumes "mk_esnikeys w opt = Inr (out, frag)"
  shows "\<exists>cnlen cover extvals public d bbuf.
           check_version opt = Inr (cnlen, cover)
         \<and> address_set w opt cnlen cover = Inr extvals
         \<and> public_share w (priv_file opt) = Inr public
         \<and> 32 \<le> length public
         \<and> bbuf = assemble (ekversion opt) cnlen cover public (clock w - 1)
                     (clock w - 1 + duration opt) extvals
         \<and> SHA256 w bbuf = Some d
         \<and> out = take 2 bbuf @ take 4 (digest_bytes d) @ drop 6 bbuf"
  using assms
  unfolding mk_esnikeys_def esni_checksum_gen_def Let_def
  by (auto split: if_splits sum.splits prod.splits option.splits failure.splits
           simp: assemble_zeroed)

lemma stripped_dot:
  assumes "name \<noteq> []"
  shows "(name @ [z]) ! (length name - 1) = last name"
    and "take (length name) ((name @ [z])[length name - 1 := c]) = butlast name @ [c]"
proof -
  obtain xs x where n: "name = xs @ [x]"
    using assms by (metis append_butlast_last_id)
  show "(name @ [z]) ! (length name - 1) = last name"
    by (simp add: n nth_append)
  show "take (length name) ((name @ [z])[length name - 1 := c]) = butlast name @ [c]"
    by (simp add: n list_update_append)
qed

lemma check_version_ff02:
  assumes "check_version opt = Inr (cnlen, cover)" "ekversion opt = 0xff02"
    "cover_name opt = Some name"
  shows "cnlen = length name \<and> name \<noteq> [] \<and> length name \<le> 254
       \<and> take (length name) cover
           = (if last name = CHR ''.'' then butlast name @ [CHR 0x00] else name)"
proof -
  have ne: "name \<noteq> []"
    using assms by (auto simp: check_version_def Let_def split: if_splits)
  show ?thesis
    using assms stripped_dot [OF ne, of "CHR 0x00"]
    by (auto simp: check_version_def Let_def MAX_ESNI_COVER_NAME_def split: if_splits)
qed

lemma esnikeys_ff02_layout:
  assumes "mk_esnikeys w opt = Inr (out, frag)" "ekversion opt = 0xff02"
    "cover_name opt = Some name"
  shows "name \<noteq> [] \<and> length name \<le> 254
       \<and> (\<exists>ck rest. length ck = 4
            \<and> out = [0xff, 0x02] @ ck @ [of_nat (length name div 256), of_nat (length name)]
                  @ map byte_of_char
                      (if last name = CHR ''.'' then butlast name @ [CHR 0x00] else name)
                  @ rest)"
proof -
  from mk_esnikeys_InrD [OF assms(1)] obtain cnlen cover extvals public d where
    cv: "check_version opt = Inr (cnlen, cover)"
    and out: "out = take 2 (assemble (ekversion opt) cnlen cover public (clock w - 1)
                     (clock w - 1 + duration opt) extvals) @ take 4 (digest_bytes d)
                  @ drop 6 (assemble (ekversion opt) cnlen cover public (clock w - 1)
                     (clock w - 1 + duration opt) extvals)"
    by blast
  note c = check_version_ff02 [OF cv assms(2,3)]
  have ck: "length (take 4 (digest_bytes d)) = 4" by (simp add: length_digest_bytes)
  have "out = [0xff, 0x02] @ take 4 (digest_bytes d)
                @ [of_nat (length name div 256), of_nat (length name)]
                @ map byte_of_char
                    (if last name = CHR ''.'' then butlast name @ [CHR 0x00] else name)
                @ ([0x00, 0x24, 0x00, 0x1d, 0x00, 0x20] @ take 32 public
                   @ [0x00, 0x02, 0x13, 0x01, 0x01, 0x04]
                   @ time_bytes (clock w - 1) @ time_bytes (clock w - 1 + duration opt)
                   @ (if length extvals = 0 then [0x00, 0x00] else extvals))"
  proof -
    from c have n: "cnlen = length name" by simp
    from c have t: "take (length name) cover
        = (if last name = CHR ''.'' then butlast name @ [CHR 0x00] else name)"
      by simp
    show ?thesis unfolding out n by (simp add: assemble_def assms(2) t)
  qed
  with c ck show ?thesis by blast
qed

lemma nth_after_prefix:
  "length ck = 4 \<Longrightarrow> ([a, b] @ ck @ [hi, lo] @ xs) ! 6 = hi"
  "length ck = 4 \<Longrightarrow> ([a, b] @ ck @ [hi, lo] @ xs) ! 7 = lo"
  "length ck = 4 \<Longrightarrow> drop 8 ([a, b] @ ck @ [hi, lo] @ xs) = xs"
  by (simp_all add: nth_append)

lemma small_length_bytes:
  assumes "n \<le> 254"
  shows "256 * unat (of_nat (n div 256) :: byte) + unat (of_nat n :: byte) = n"
  using assms by (simp add: unat_of_nat)

lemma esnikeys_ff02_name_field:
  assumes "mk_esnikeys w opt = Inr (out, frag)" "ekversion opt = 0xff02"
    "cover_name opt = Some name"
    and "stored = (if last name = CHR ''.'' then butlast name @ [CHR 0x00] else name)"
  shows "name \<noteq> []" and "length name \<le> 254" and "length stored = length name"
    and "256 * unat (out ! 6) + unat (out ! 7) = length name"
    and "\<exists>rest. drop 8 out = map byte_of_char stored @ rest"
    and "read_name_field 6 out = map byte_of_char stored"
proof -
  from esnikeys_ff02_layout [OF assms(1-3)] obtain ck rest where
    ne: "name \<noteq> []" and le: "length name \<le> 254" and ck: "length ck = 4"
    and out: "out = [0xff, 0x02] @ ck @ [of_nat (length name div 256), of_nat (length name)]
                  @ (map byte_of_char stored @ rest)"
    unfolding assms(4) by auto
  show "name \<noteq> []" by (rule ne)
  show "length name \<le> 254" by (rule le)
  have "length name = Suc (length (butlast name))" using ne by simp
  then show ls: "length stored = length name" unfolding assms(4) by simp
  show len: "256 * unat (out ! 6) + unat (out ! 7) = length name"
    unfolding out nth_after_prefix [OF ck] by (rule small_length_bytes [OF le])
  have d8: "drop 8 out = map byte_of_char stored @ rest"
    unfolding out by (rule nth_after_prefix(3) [OF ck])
  then show "\<exists>rest. drop 8 out = map byte_of_char stored @ rest" ..
  have "read_name_field 6 out = take (256 * unat (out ! 6) + unat (out ! 7)) (drop 8 out)"
    by (simp add: read_name_field_def)
  also have "\<dots> = take (length name) (map byte_of_char stored @ rest)"
    unfolding len d8 ..
  also have "\<dots> = map byte_of_char stored" using ls by simp
  finally show "read_name_field 6 out = map byte_of_char stored" .
qed

lemma check_version_versions:
  "check_version opt = Inr r \<Longrightarrow> ekversion opt = 0xff01 \<or> ekversion opt = 0xff02"
  by (auto simp: check_version_def split: if_splits)

lemmas run_defs =
  mk_esnikeys_def check_version_def address_set_def priv_file_def assemble_def
  esni_checksum_gen_def fp_esni_prr_def so_esni_prr_def pub_file_def frag_file_def
  maxduration_def minduration_def
  MAX_ESNI_COVER_NAME_def MAX_ESNIKEYS_BUFLEN_def c_str_def time_bytes_def Let_def

lemmas sample_defs =
  sample_world_def sample_options_def dotted_options_def sample_digest_def
  later_world_def renamed_options_def

lemma sample_run: "\<exists>out frag. mk_esnikeys sample_world sample_options = Inr (out, frag)"
  by (simp add: run_defs sample_defs)

lemma dotted_run: "\<exists>out frag. mk_esnikeys sample_world dotted_options = Inr (out, frag)"
  by (simp add: run_defs sample_defs)

lemma later_run: "\<exists>out frag. mk_esnikeys later_world renamed_options = Inr (out, frag)"
  by (simp add: run_defs sample_defs)

lemma sample_versions:
  "ekversion sample_options = 0xff02" "cover_name sample_options = Some ''ab''"
  "ekversion dotted_options = 0xff02" "cover_name dotted_options = Some ''ab.''"
  by (simp_all add: sample_defs)

subsection \<open>The checksum\<close>

lemma spliced_checksum:
  assumes "6 \<le> length bbuf" "length ck = 4"
  shows "take 2 (take 2 bbuf @ ck @ drop 6 bbuf) = take 2 bbuf"
    and "drop 6 (take 2 bbuf @ ck @ drop 6 bbuf) = drop 6 bbuf"
    and "take 4 (drop 2 (take 2 bbuf @ ck @ drop 6 bbuf)) = ck"
    and "length (take 2 bbuf @ ck @ drop 6 bbuf) = length bbuf"
  using assms by (simp_all add: min_def)

text \<open>
  C1. In every structure a run of \<^verbatim>\<open>mk_esnikeys\<close> emits (the version is then
  \<^verbatim>\<open>0xff01\<close> or \<^verbatim>\<open>0xff02\<close>), the four bytes at offset 2 are the first four bytes of
  the digest of the structure with these four bytes set to zero: running
  \<^verbatim>\<open>esni_checksum_gen\<close> on the emitted buffer gives back the stored bytes.
\<close>

theorem esnikeys_checksum:
  assumes "mk_esnikeys w opt = Inr (out, frag)"
  shows "esni_checksum_gen (SHA256 w) out = Inr (take 4 (drop 2 out))
       \<and> (\<exists>d. SHA256 w (take 2 out @ replicate 4 0 @ drop 6 out) = Some d
              \<and> take 4 (drop 2 out) = take 4 (digest_bytes d))
       \<and> (ekversion opt = 0xff01 \<or> ekversion opt = 0xff02)"
proof -
  from mk_esnikeys_InrD [OF assms] obtain cnlen cover extvals public d where
    cv: "check_version opt = Inr (cnlen, cover)"
    and sha: "SHA256 w (assemble (ekversion opt) cnlen cover public (clock w - 1)
                     (clock w - 1 + duration opt) extvals) = Some d"
    and out: "out = take 2 (assemble (ekversion opt) cnlen cover public (clock w - 1)
                     (clock w - 1 + duration opt) extvals) @ take 4 (digest_bytes d)
                  @ drop 6 (assemble (ekversion opt) cnlen cover public (clock w - 1)
                     (clock w - 1 + duration opt) extvals)"
    by blast
  let ?b = "assemble (ekversion opt) cnlen cover public (clock w - 1)
                     (clock w - 1 + duration opt) extvals"
  have len: "6 \<le> length ?b" by (rule assemble_length_ge)
  have ck: "length (take 4 (digest_bytes d)) = 4" by (simp add: length_digest_bytes)
  have z: "take 2 out @ replicate 4 0 @ drop 6 out = ?b"
    unfolding out spliced_checksum(1,2) [OF len ck] by (rule assemble_zeroed)
  have stored: "take 4 (drop 2 out) = take 4 (digest_bytes d)"
    unfolding out by (rule spliced_checksum(3) [OF len ck])
  have l: "\<not> length out < 6"
    unfolding out using spliced_checksum(4) [OF len ck] len by simp
  show ?thesis
    using sha stored l check_version_versions [OF cv]
    by (simp add: esni_checksum_gen_def z)
qed

theorem esnikeys_checksum_witness:
  "\<exists>out frag. mk_esnikeys sample_world sample_options = Inr (out, frag)
     \<and> esni_checksum_gen (SHA256 sample_world) out = Inr (take 4 (drop 2 out))
     \<and> (\<exists>d. SHA256 sample_world (take 2 out @ replicate 4 0 @ drop 6 out) = Some d
            \<and> take 4 (drop 2 out) = take 4 (digest_bytes d))"
proof -
  obtain out frag where r: "mk_esnikeys sample_world sample_options = Inr (out, frag)"
    using sample_run by blast
  from esnikeys_checksum [OF r] r show ?thesis by blast
qed

subsection \<open>A cover name that ends with a dot\<close>

text \<open>
  C10. For a \<^verbatim>\<open>0xff02\<close> run whose cover name ends with a dot, the length field of the
  name counts the dot (\<^verbatim>\<open>cnlen\<close> is taken before the dot is overwritten), and the last
  byte of the encoded name is the zero that replaced the dot.
\<close>

theorem dotted_cover_name_encoding:
  assumes "mk_esnikeys w opt = Inr (out, frag)" "ekversion opt = 0xff02"
    "cover_name opt = Some name" "last name = CHR ''.''"
  shows "256 * unat (out ! 6) + unat (out ! 7) = length name
       \<and> read_name_field 6 out = map byte_of_char (butlast name) @ [0x00]
       \<and> out ! (8 + (length name - 1)) = 0x00
       \<and> out ! (8 + (length name - 1)) \<noteq> byte_of_char (CHR ''.'')"
proof -
  have s: "butlast name @ [CHR 0x00]
             = (if last name = CHR ''.'' then butlast name @ [CHR 0x00] else name)"
    using assms(4) by simp
  note f = esnikeys_ff02_name_field [OF assms(1-3) s]
  have z: "byte_of_char (CHR 0x00) = 0" by (simp add: byte_of_char_def)
  from f(5) obtain rest where
    d8: "drop 8 out = map byte_of_char (butlast name @ [CHR 0x00]) @ rest" ..
  have "drop 8 out ! (length name - 1) = 0x00"
    unfolding d8 by (simp add: z nth_append)
  moreover have "8 + (length name - 1) < length out"
  proof -
    have "length (drop 8 out) \<ge> length name" unfolding d8 using f(1) by simp
    then have "length name \<le> length out - 8" by simp
    moreover have "0 < length name" using f(1) by simp
    ultimately show ?thesis by linarith
  qed
  ultimately have last0: "out ! (8 + (length name - 1)) = 0x00"
    by (simp add: nth_drop)
  show ?thesis using f(4,6) last0 by (simp add: byte_of_char_def z)
qed

theorem dotted_cover_name_encoding_witness:
  "\<exists>out frag. mk_esnikeys sample_world dotted_options = Inr (out, frag)
     \<and> cover_name dotted_options = Some ''ab.'' \<and> last ''ab.'' = CHR ''.''
     \<and> 256 * unat (out ! 6) + unat (out ! 7) = 3
     \<and> read_name_field 6 out = [0x61, 0x62, 0x00]
     \<and> out ! 10 = 0x00"
proof -
  obtain out frag where r: "mk_esnikeys sample_world dotted_options = Inr (out, frag)"
    using dotted_run by blast
  have v: "ekversion dotted_options = 0xff02"
    and n: "cover_name dotted_options = Some ''ab.''"
    by (simp_all add: sample_defs)
  have d: "last ''ab.'' = CHR ''.''" by simp
  from dotted_cover_name_encoding [OF r v n d] r n show ?thesis
    by (simp add: byte_of_char_def)
qed

subsection \<open>What the structure depends on\<close>

text \<open>
  C5, as stated: the same version, name, key bytes and extension data give the same
  bytes. The validity window is read from the clock (\<^verbatim>\<open>nb = time(0)-1\<close>,
  \<^verbatim>\<open>na = nb + duration\<close>): the sample run at clock 1000 and the same run at clock
  2000 emit structures whose not-before fields (offsets 58 to 61) differ.
\<close>

theorem clock_changes_structure_counterexample:
  "map_option (take 4 \<circ> drop 58) (emitted (mk_esnikeys sample_world sample_options))
     = Some [0x00, 0x00, 0x03, 0xe7]
   \<and> map_option (take 4 \<circ> drop 58)
         (emitted (mk_esnikeys (sample_world\<lparr>clock := 2000\<rparr>) sample_options))
     = Some [0x00, 0x00, 0x07, 0xcf]
   \<and> emitted (mk_esnikeys sample_world sample_options)
     \<noteq> emitted (mk_esnikeys (sample_world\<lparr>clock := 2000\<rparr>) sample_options)"
proof -
  have a: "map_option (take 4 \<circ> drop 58) (emitted (mk_esnikeys sample_world sample_options))
     = Some [0x00, 0x00, 0x03, 0xe7]"
    by (simp add: run_defs sample_defs emitted_def length_digest_bytes)
  have b: "map_option (take 4 \<circ> drop 58)
         (emitted (mk_esnikeys (sample_world\<lparr>clock := 2000\<rparr>) sample_options))
     = Some [0x00, 0x00, 0x07, 0xcf]"
    by (simp add: run_defs sample_defs emitted_def length_digest_bytes)
  have "emitted (mk_esnikeys sample_world sample_options)
     \<noteq> emitted (mk_esnikeys (sample_world\<lparr>clock := 2000\<rparr>) sample_options)"
  proof
    assume "emitted (mk_esnikeys sample_world sample_options)
      = emitted (mk_esnikeys (sample_world\<lparr>clock := 2000\<rparr>) sample_options)"
    then have "map_option (take 4 \<circ> drop 58)
          (emitted (mk_esnikeys sample_world sample_options))
      = map_option (take 4 \<circ> drop 58)
          (emitted (mk_esnikeys (sample_world\<lparr>clock := 2000\<rparr>) sample_options))"
      by simp
    then show False unfolding a b by simp
  qed
  with a b show ?thesis by blast
qed

text \<open>The eight bytes of a time hold its low 32 bits, and nothing else of it.\<close>

lemma byte_of_int_eq: "(of_int x :: byte) = of_int y \<longleftrightarrow> x mod 256 = y mod 256"
  by (simp add: word_of_int_eq_iff take_bit_eq_mod)

lemma shifted_byte:
  assumes "take_bit 32 s = take_bit 32 (t :: int)" "k \<le> 24"
  shows "(s div 2 ^ k) mod 256 = (t div 2 ^ k) mod 256"
proof -
  have m: "min (8 + k) 32 = 8 + k" using assms(2) by simp
  have v: "take_bit 8 (drop_bit k x) = drop_bit k (take_bit (8 + k) (take_bit 32 x))"
    for x :: int
    unfolding take_bit_take_bit m by (rule take_bit_drop_bit)
  have "take_bit 8 (drop_bit k s) = take_bit 8 (drop_bit k t)"
    unfolding v assms(1) ..
  then show ?thesis
    unfolding take_bit_eq_mod drop_bit_eq_div by simp
qed

lemma low_32: "(t :: int) mod 2 ^ 32
   = 2 ^ 24 * (t div 2 ^ 24 mod 256) + (2 ^ 16 * (t div 2 ^ 16 mod 256)
      + (2 ^ 8 * (t div 2 ^ 8 mod 256) + t mod 256))"
proof -
  have a: "t mod 2 ^ 16 = 2 ^ 8 * (t div 2 ^ 8 mod 256) + t mod 2 ^ 8"
    using zmod_zmult2_eq [of 256 t "2 ^ 8"] by simp
  have b: "t mod 2 ^ 24 = 2 ^ 16 * (t div 2 ^ 16 mod 256) + t mod 2 ^ 16"
    using zmod_zmult2_eq [of 256 t "2 ^ 16"] by simp
  have c: "t mod 2 ^ 32 = 2 ^ 24 * (t div 2 ^ 24 mod 256) + t mod 2 ^ 24"
    using zmod_zmult2_eq [of 256 t "2 ^ 24"] by simp
  show ?thesis unfolding c b a by simp
qed

lemma time_bytes_eq_iff: "time_bytes s = time_bytes t \<longleftrightarrow> s mod 2 ^ 32 = t mod 2 ^ 32"
proof
  assume "time_bytes s = time_bytes t"
  then have h: "s div 2 ^ 24 mod 256 = t div 2 ^ 24 mod 256"
    "s div 2 ^ 16 mod 256 = t div 2 ^ 16 mod 256"
    "s div 2 ^ 8 mod 256 = t div 2 ^ 8 mod 256" "s mod 256 = t mod 256"
    by (simp_all add: time_bytes_def byte_of_int_eq)
  have "s mod 2 ^ 32 = 2 ^ 24 * (s div 2 ^ 24 mod 256) + (2 ^ 16 * (s div 2 ^ 16 mod 256)
      + (2 ^ 8 * (s div 2 ^ 8 mod 256) + s mod 256))"
    by (rule low_32)
  also have "\<dots> = 2 ^ 24 * (t div 2 ^ 24 mod 256) + (2 ^ 16 * (t div 2 ^ 16 mod 256)
      + (2 ^ 8 * (t div 2 ^ 8 mod 256) + t mod 256))"
    by (simp only: h)
  also have "\<dots> = t mod 2 ^ 32"
    by (rule low_32 [symmetric])
  finally show "s mod 2 ^ 32 = t mod 2 ^ 32" .
next
  assume e: "s mod 2 ^ 32 = t mod 2 ^ 32"
  from e have e': "take_bit 32 s = take_bit 32 t" by (simp only: take_bit_eq_mod)
  have b3: "s div 2 ^ 24 mod 256 = t div 2 ^ 24 mod 256"
    by (rule shifted_byte [OF e']) simp
  have b2: "s div 2 ^ 16 mod 256 = t div 2 ^ 16 mod 256"
    by (rule shifted_byte [OF e']) simp
  have b1: "s div 2 ^ 8 mod 256 = t div 2 ^ 8 mod 256"
    by (rule shifted_byte [OF e']) simp
  have "s div 2 ^ 0 mod 256 = t div 2 ^ 0 mod 256"
    by (rule shifted_byte [OF e']) simp
  then have b0: "s mod 256 = t mod 256" by simp
  have w: "(of_int (s div 2 ^ 24) :: byte) = of_int (t div 2 ^ 24)"
    "(of_int (s div 2 ^ 16) :: byte) = of_int (t div 2 ^ 16)"
    "(of_int (s div 2 ^ 8) :: byte) = of_int (t div 2 ^ 8)"
    "(of_int s :: byte) = of_int t"
    using b3 b2 b1 b0 by (simp_all only: byte_of_int_eq)
  show "time_bytes s = time_bytes t"
    unfolding time_bytes_def w ..
qed

lemma length_time_bytes: "length (time_bytes t) = 8"
  by (simp add: time_bytes_def)


lemma assemble_parts:
  "drop 6 (assemble v c cv p nb na e)
     = ((if v = 0xff02 then [of_nat (c div 256), of_nat c] @ map byte_of_char (take c cv) else [])
        @ [0x00, 0x24, 0x00, 0x1d, 0x00, 0x20] @ take 32 p
        @ [0x00, 0x02, 0x13, 0x01, 0x01, 0x04])
       @ time_bytes nb @ time_bytes na
       @ (if length e = 0 then [0x00, 0x00] else e)"
  by (simp add: assemble_def)

lemma assemble_key: "take 32 p = take 32 q \<Longrightarrow> assemble v c cv p nb na e = assemble v c cv q nb na e"
  by (simp add: assemble_def)

lemma assemble_times:
  "time_bytes nb = time_bytes nb' \<Longrightarrow> time_bytes na = time_bytes na'
     \<Longrightarrow> assemble v c cv p nb na e = assemble v c cv p nb' na' e"
  by (simp add: assemble_def)

lemma check_version_cong:
  "ekversion o1 = ekversion o2 \<Longrightarrow> cover_name o1 = cover_name o2
     \<Longrightarrow> check_version o1 = check_version o2"
  by (simp add: check_version_def)

text \<open>
  C5, amended. Of two runs that deliver a structure and agree on the version, the name,
  the 32 key bytes, the extension data and the digest, the structures are byte for byte
  the same exactly when the two not-before times (\<^verbatim>\<open>time(0)-1\<close>) and the two not-after
  times (\<^verbatim>\<open>time(0)-1+duration\<close>) agree modulo \<open>2 ^ 32\<close>. The names of the output files
  and the record type are free.
\<close>

theorem build_depends_on:
  assumes r1: "mk_esnikeys w1 o1 = Inr (out1, frag1)"
    and r2: "mk_esnikeys w2 o2 = Inr (out2, frag2)"
    and v: "ekversion o1 = ekversion o2" and n: "cover_name o1 = cover_name o2"
    and k1: "public_share w1 (priv_file o1) = Inr key1"
    and k2: "public_share w2 (priv_file o2) = Inr key2"
    and k: "take 32 key1 = take 32 key2"
    and cv: "check_version o1 = Inr (cnlen, cover)"
    and x: "address_set w1 o1 cnlen cover = address_set w2 o2 cnlen cover"
    and d: "SHA256 w1 = SHA256 w2"
  shows "out1 = out2 \<longleftrightarrow>
           (clock w1 - 1) mod 2 ^ 32 = (clock w2 - 1) mod 2 ^ 32
         \<and> (clock w1 - 1 + duration o1) mod 2 ^ 32 = (clock w2 - 1 + duration o2) mod 2 ^ 32"
proof -
  let ?nb1 = "clock w1 - 1" and ?na1 = "clock w1 - 1 + duration o1"
  let ?nb2 = "clock w2 - 1" and ?na2 = "clock w2 - 1 + duration o2"
  have cv2: "check_version o2 = Inr (cnlen, cover)"
    using check_version_cong [OF v n] cv by simp
  from mk_esnikeys_InrD [OF r1] cv k1 obtain e1 d1 where
    a1: "address_set w1 o1 cnlen cover = Inr e1"
    and s1: "SHA256 w1 (assemble (ekversion o1) cnlen cover key1 ?nb1 ?na1 e1) = Some d1"
    and o1: "out1 = take 2 (assemble (ekversion o1) cnlen cover key1 ?nb1 ?na1 e1)
                @ take 4 (digest_bytes d1)
                @ drop 6 (assemble (ekversion o1) cnlen cover key1 ?nb1 ?na1 e1)"
    by auto
  from mk_esnikeys_InrD [OF r2] cv2 k2 obtain e2 d2 where
    a2: "address_set w2 o2 cnlen cover = Inr e2"
    and s2: "SHA256 w2 (assemble (ekversion o2) cnlen cover key2 ?nb2 ?na2 e2) = Some d2"
    and o2: "out2 = take 2 (assemble (ekversion o2) cnlen cover key2 ?nb2 ?na2 e2)
                @ take 4 (digest_bytes d2)
                @ drop 6 (assemble (ekversion o2) cnlen cover key2 ?nb2 ?na2 e2)"
    by auto
  have e: "e2 = e1" using a1 a2 x by simp
  let ?b1 = "assemble (ekversion o1) cnlen cover key1 ?nb1 ?na1 e1"
  let ?b2 = "assemble (ekversion o1) cnlen cover key1 ?nb2 ?na2 e1"
  have b2: "assemble (ekversion o2) cnlen cover key2 ?nb2 ?na2 e2 = ?b2"
    unfolding e v [symmetric] by (rule assemble_key [OF k [symmetric]])
  have s2': "SHA256 w1 ?b2 = Some d2" using s2 unfolding b2 d .
  have o2': "out2 = take 2 ?b2 @ take 4 (digest_bytes d2) @ drop 6 ?b2"
    using o2 unfolding b2 .
  have ck: "length (take 4 (digest_bytes d1)) = 4" "length (take 4 (digest_bytes d2)) = 4"
    by (simp_all add: length_digest_bytes)
  have l: "6 \<le> length ?b1" "6 \<le> length ?b2" by (rule assemble_length_ge)+
  show ?thesis
  proof
    assume "out1 = out2"
    then have "drop 6 out1 = drop 6 out2" by simp
    then have "drop 6 ?b1 = drop 6 ?b2"
      unfolding o1 o2' spliced_checksum(2) [OF l(1) ck(1)] spliced_checksum(2) [OF l(2) ck(2)] .
    then have "time_bytes ?nb1 @ time_bytes ?na1 @ (if length e1 = 0 then [0x00, 0x00] else e1)
        = time_bytes ?nb2 @ time_bytes ?na2 @ (if length e1 = 0 then [0x00, 0x00] else e1)"
      unfolding assemble_parts by simp
    then have "time_bytes ?nb1 = time_bytes ?nb2 \<and> time_bytes ?na1 = time_bytes ?na2"
      by (simp add: length_time_bytes)
    then show "?nb1 mod 2 ^ 32 = ?nb2 mod 2 ^ 32 \<and> ?na1 mod 2 ^ 32 = ?na2 mod 2 ^ 32"
      unfolding time_bytes_eq_iff .
  next
    assume "?nb1 mod 2 ^ 32 = ?nb2 mod 2 ^ 32 \<and> ?na1 mod 2 ^ 32 = ?na2 mod 2 ^ 32"
    then have t: "time_bytes ?nb1 = time_bytes ?nb2" "time_bytes ?na1 = time_bytes ?na2"
      unfolding time_bytes_eq_iff by simp_all
    have b: "?b1 = ?b2" by (rule assemble_times [OF t])
    with s1 s2' have "d1 = d2" by simp
    with b show "out1 = out2" unfolding o1 o2' by simp
  qed
qed


theorem build_depends_on_witness:
  "\<exists>out1 frag1 out2 frag2.
      mk_esnikeys sample_world sample_options = Inr (out1, frag1)
    \<and> mk_esnikeys later_world renamed_options = Inr (out2, frag2)
    \<and> ekversion sample_options = ekversion renamed_options
    \<and> cover_name sample_options = cover_name renamed_options
    \<and> public_share sample_world (priv_file sample_options) = Inr (replicate 32 7)
    \<and> public_share later_world (priv_file renamed_options) = Inr (replicate 32 7)
    \<and> check_version sample_options = Inr (2, ''ab'' @ [CHR 0x00])
    \<and> address_set sample_world sample_options 2 (''ab'' @ [CHR 0x00])
        = address_set later_world renamed_options 2 (''ab'' @ [CHR 0x00])
    \<and> SHA256 sample_world = SHA256 later_world
    \<and> clock sample_world \<noteq> clock later_world
    \<and> (clock sample_world - 1) mod 2 ^ 32 = (clock later_world - 1) mod 2 ^ 32
    \<and> (clock sample_world - 1 + duration sample_options) mod 2 ^ 32
        = (clock later_world - 1 + duration renamed_options) mod 2 ^ 32
    \<and> out1 = out2"
proof -
  obtain out1 frag1 where r1: "mk_esnikeys sample_world sample_options = Inr (out1, frag1)"
    using sample_run by blast
  obtain out2 frag2 where r2: "mk_esnikeys later_world renamed_options = Inr (out2, frag2)"
    using later_run by blast
  have v: "ekversion sample_options = ekversion renamed_options"
    and n: "cover_name sample_options = cover_name renamed_options"
    and k1: "public_share sample_world (priv_file sample_options) = Inr (replicate 32 7)"
    and k2: "public_share later_world (priv_file renamed_options) = Inr (replicate 32 7)"
    and d: "SHA256 sample_world = SHA256 later_world"
    by (simp_all add: sample_defs)
  have cv: "check_version sample_options = Inr (2, ''ab'' @ [CHR 0x00])"
    by (simp add: check_version_def sample_defs MAX_ESNI_COVER_NAME_def)
  have x: "address_set sample_world sample_options 2 (''ab'' @ [CHR 0x00])
        = address_set later_world renamed_options 2 (''ab'' @ [CHR 0x00])"
    by (simp add: address_set_def sample_defs)
  have c: "clock sample_world \<noteq> clock later_world"
    and t: "(clock sample_world - 1) mod 2 ^ 32 = (clock later_world - 1) mod 2 ^ 32"
      "(clock sample_world - 1 + duration sample_options) mod 2 ^ 32
        = (clock later_world - 1 + duration renamed_options) mod 2 ^ 32"
    by (simp_all add: sample_defs)
  have "out1 = out2"
    using build_depends_on [OF r1 r2 v n k1 k2 refl cv x d] t by simp
  with r1 r2 v n k1 k2 cv x d c t show ?thesis by blast
qed

section \<open>The ECHOConfig build\<close>

subsection \<open>What a successful call went through\<close>

lemma length_base64: "length (base64 xs) = 4 * ((length xs + 2) div 3)"
proof (induction xs rule: base64.induct)
  case (4 a b c rest)
  have "(length (a # b # c # rest) + 2) div 3 = Suc ((length rest + 2) div 3)"
    by simp
  with 4 show ?case by simp
qed simp_all

lemma echo_assemble_ff03:
  "echo_assemble kem 0xff03 nm pub
     = [0xff, 0x03]
       @ (if nm = [] then []
          else [of_nat (length nm div 256), of_nat (length nm)] @ map byte_of_char nm)
       @ [0x00, 0x24, 0x00, 0x1d, 0x00, 0x20] @ take 32 pub
       @ [of_nat (kem div 16), of_nat (kem mod 16)]
       @ [0x00, 0x02, 0x13, 0x01, 0x01, 0x04, 0x00, 0x00]"
  by (simp add: echo_assemble_def Let_def)

lemma mk_echoconfig_InrD:
  assumes "mk_echoconfig w v public_name cap pn = Inr r"
  shows "v = 0xff03 \<and> \<not> pn
       \<and> (\<exists>pub pk. hpke_kg w = Some (pub, pk) \<and> 32 \<le> length pub
            \<and> config_bytes r
                = echo_assemble (HPKE_KEM_ID_25519 w) 0xff03 (name_chars public_name) pub
            \<and> priv r = pk)
       \<and> length (config_bytes r) \<le> MAX_ECHOCONFIGS_BUFLEN w
       \<and> echoconfig r = base64 (config_bytes r) @ [CHR 0x00]
       \<and> echoconfig_len r = length (base64 (config_bytes r))
       \<and> length (base64 (config_bytes r)) + 2 \<le> cap"
proof -
  have v: "v = 0xff03"
    using assms unfolding mk_echoconfig_def by (simp split: if_splits)
  have pn: "\<not> pn"
    using assms unfolding mk_echoconfig_def by (simp split: if_splits)
  obtain pub pk where kg: "hpke_kg w = Some (pub, pk)"
    using assms v pn unfolding mk_echoconfig_def by (cases "hpke_kg w") auto
  define bbuf where
    "bbuf = echo_assemble (HPKE_KEM_ID_25519 w) 0xff03 (name_chars public_name) pub"
  have rest: "(if length pub < 32 then Inl Mem_fault
         else if length bbuf > MAX_ECHOCONFIGS_BUFLEN w then Inl Mem_fault
         else if length (base64 bbuf) + 1 > cap then Inl Mem_fault
         else if length (base64 bbuf) \<ge> cap - 1 then Inl (Return 181)
         else Inr \<lparr>config_bytes = bbuf, echoconfig = base64 bbuf @ [CHR 0x00],
                   echoconfig_len = length (base64 bbuf), priv = pk\<rparr>) = Inr r"
  proof -
    have a: "mk_echoconfig w 0xff03 public_name cap False = Inr r"
      using assms v pn by simp
    show ?thesis
      using a unfolding mk_echoconfig_def Let_def bbuf_def by (simp add: kg)
  qed
  then have p: "32 \<le> length pub" and m: "length bbuf \<le> MAX_ECHOCONFIGS_BUFLEN w"
    by (simp_all split: if_splits)
  with rest have "length (base64 bbuf) + 2 \<le> cap
      \<and> \<lparr>config_bytes = bbuf, echoconfig = base64 bbuf @ [CHR 0x00],
                   echoconfig_len = length (base64 bbuf), priv = pk\<rparr> = r"
    by (simp split: if_splits)
  then have c: "length (base64 bbuf) + 2 \<le> cap" and r: "config_bytes r = bbuf"
    "echoconfig r = base64 bbuf @ [CHR 0x00]" "echoconfig_len r = length (base64 bbuf)"
    "priv r = pk"
    by auto
  show ?thesis
    using v pn kg p m c r unfolding bbuf_def by simp
qed

lemma nibbles_not_big_endian:
  assumes "16 \<le> k" "k < 65536"
  shows "[of_nat (k div 16), of_nat (k mod 16)] \<noteq> [of_nat (k div 256), of_nat k :: byte]"
proof
  assume "[of_nat (k div 16), of_nat (k mod 16)] = [of_nat (k div 256), of_nat k :: byte]"
  then have a: "(of_nat (k div 16) :: byte) = of_nat (k div 256)"
    and b: "(of_nat (k mod 16) :: byte) = of_nat k" by simp_all
  from a have "unat (of_nat (k div 16) :: byte) = unat (of_nat (k div 256) :: byte)" by simp
  then have a': "(k div 16) mod 256 = (k div 256) mod 256" by (simp add: unat_of_nat)
  from b have "unat (of_nat (k mod 16) :: byte) = unat (of_nat k :: byte)" by simp
  then have b': "k mod 16 = k mod 256" by (simp add: unat_of_nat)
  define q where "q = k div 256"
  define r where "r = k mod 256"
  have k: "k = 256 * q + r" by (simp add: q_def r_def)
  have r: "r < 16" using b' by (simp add: r_def [symmetric])
  have q: "q < 256" using assms(2) by (simp add: q_def less_mult_imp_div_less)
  have d: "k div 16 = 16 * q" using r by (simp add: k)
  from a' have "(16 * q) mod 256 = q" using q by (simp add: d q_def [symmetric])
  then have e: "16 * (q mod 16) = q" by (simp add: mult_mod_right)
  have "(16 * (q mod 16)) mod 16 = 0" by simp
  with e have "q mod 16 = 0" by simp
  with e have "q = 0" by simp
  with k r assms(1) show False by simp
qed

lemma two_byte_length:
  assumes "n < 65536"
  shows "256 * unat (of_nat (n div 256) :: byte) + unat (of_nat n :: byte) = n"
proof -
  have "n div 256 < 256" using assms by (simp add: less_mult_imp_div_less)
  then show ?thesis by (simp add: unat_of_nat)
qed

lemma echo_named_layout:
  assumes "nm \<noteq> []"
  shows "echo_assemble kem 0xff03 nm pub
     = [0xff, 0x03] @ [of_nat (length nm div 256), of_nat (length nm)]
       @ map byte_of_char nm
       @ ([0x00, 0x24, 0x00, 0x1d, 0x00, 0x20] @ take 32 pub)
       @ [of_nat (kem div 16), of_nat (kem mod 16)]
       @ [0x00, 0x02, 0x13, 0x01, 0x01, 0x04, 0x00, 0x00]"
  using assms by (simp add: echo_assemble_ff03)

lemma echo_unnamed_layout:
  "echo_assemble kem 0xff03 [] pub
     = [0xff, 0x03] @ ([0x00, 0x24, 0x00, 0x1d, 0x00, 0x20] @ take 32 pub)
       @ [of_nat (kem div 16), of_nat (kem mod 16)]
       @ [0x00, 0x02, 0x13, 0x01, 0x01, 0x04, 0x00, 0x00]"
  by (simp add: echo_assemble_ff03)

lemma name_field_at_layout:
  assumes "length nb < 65536"
  shows "name_field_at 2 ([a, b] @ [of_nat (length nb div 256), of_nat (length nb)] @ nb @ rest) nb"
  using two_byte_length [OF assms] by (simp add: name_field_at_def)

lemma read_name_field_layout:
  assumes "length nb < 65536"
  shows "read_name_field 2 ([a, b] @ [of_nat (length nb div 256), of_nat (length nb)] @ nb @ rest) = nb"
  using two_byte_length [OF assms] by (simp add: read_name_field_def)

lemma key_share_at_layout:
  assumes "length pre = off" "32 \<le> length pub"
  shows "key_share_at off (pre @ ([0x00, 0x24, 0x00, 0x1d, 0x00, 0x20] @ take 32 pub) @ rest)
           (take 32 pub)"
    and "take 2 (drop (off + 38) (pre @ ([0x00, 0x24, 0x00, 0x1d, 0x00, 0x20] @ take 32 pub)
           @ [x, y] @ rest')) = [x, y]"
  using assms by (simp_all add: key_share_at_def min_def)

lemmas echo_defs =
  mk_echoconfig_def echo_assemble_def name_chars_def sample_echo_world_def length_base64
  Let_def

lemma sample_echo_named:
  "\<exists>r. mk_echoconfig sample_echo_world 0xff03 (Some ''ab'') 2000 False = Inr r"
  by (simp add: echo_defs)

lemma sample_echo_unnamed:
  "\<exists>r. mk_echoconfig sample_echo_world 0xff03 None 2000 False = Inr r"
  by (simp add: echo_defs)

lemma sample_echo_kg: "hpke_kg sample_echo_world = Some (replicate 32 7, [1, 2, 3])"
  by (simp add: sample_echo_world_def)

subsection \<open>The public name field\<close>

text \<open>
  C2, as stated: every \<^verbatim>\<open>0xff03\<close> structure has a length-prefixed name field right
  after the version, also for an absent or empty name. The code writes the field only
  when \<^verbatim>\<open>pnlen > 0\<close>: without a name the two bytes after the version are the
  \<^verbatim>\<open>00 24\<close> that open the key-share entry, not a zero length.
\<close>

theorem echo_absent_name_counterexample:
  "encoded (mk_echoconfig sample_echo_world 0xff03 None 2000 False)
     = Some ([0xff, 0x03, 0x00, 0x24, 0x00, 0x1d, 0x00, 0x20] @ replicate 32 7
             @ [0x02, 0x00, 0x00, 0x02, 0x13, 0x01, 0x01, 0x04, 0x00, 0x00])
   \<and> encoded (mk_echoconfig sample_echo_world 0xff03 (Some []) 2000 False)
     = Some ([0xff, 0x03, 0x00, 0x24, 0x00, 0x1d, 0x00, 0x20] @ replicate 32 7
             @ [0x02, 0x00, 0x00, 0x02, 0x13, 0x01, 0x01, 0x04, 0x00, 0x00])
   \<and> \<not> name_field_at 2 ([0xff, 0x03, 0x00, 0x24, 0x00, 0x1d, 0x00, 0x20] @ replicate 32 7
             @ [0x02, 0x00, 0x00, 0x02, 0x13, 0x01, 0x01, 0x04, 0x00, 0x00]) []"
  by (simp add: echo_defs encoded_def name_field_at_def)

text \<open>
  C2, amended. With a name of 1 to 65535 characters the structure holds, from offset 2,
  the 2-byte big-endian length and the name, and the key-share entry right behind them;
  with an absent or empty name the key-share entry follows the version directly.
\<close>

theorem echo_public_name_field:
  assumes "mk_echoconfig w v public_name cap pn = Inr r" "hpke_kg w = Some (pub, pk)"
  shows "(name_chars public_name \<noteq> [] \<and> length (name_chars public_name) < 65536 \<longrightarrow>
            name_field_at 2 (config_bytes r) (map byte_of_char (name_chars public_name))
          \<and> key_share_at (4 + length (name_chars public_name)) (config_bytes r) (take 32 pub))
       \<and> (name_chars public_name = [] \<longrightarrow> key_share_at 2 (config_bytes r) (take 32 pub))"
proof -
  from mk_echoconfig_InrD [OF assms(1)] assms(2) have
    p: "32 \<le> length pub"
    and c: "config_bytes r
             = echo_assemble (HPKE_KEM_ID_25519 w) 0xff03 (name_chars public_name) pub"
    by auto
  let ?nm = "name_chars public_name"
  have named: "name_field_at 2 (config_bytes r) (map byte_of_char ?nm)
      \<and> key_share_at (4 + length ?nm) (config_bytes r) (take 32 pub)"
    if ne: "?nm \<noteq> []" and lt: "length ?nm < 65536"
  proof -
    have l: "length (map byte_of_char ?nm) < 65536" using lt by simp
    have f: "name_field_at 2 (config_bytes r) (map byte_of_char ?nm)"
      unfolding c echo_named_layout [OF ne]
      using name_field_at_layout [OF l] by simp
    have pre: "length ([0xff, 0x03] @ [of_nat (length ?nm div 256), of_nat (length ?nm)]
                 @ map byte_of_char ?nm :: byte list) = 4 + length ?nm"
      by simp
    have k: "key_share_at (4 + length ?nm) (config_bytes r) (take 32 pub)"
      unfolding c echo_named_layout [OF ne]
      using key_share_at_layout(1) [OF pre p] by simp
    from f k show ?thesis ..
  qed
  have unnamed: "key_share_at 2 (config_bytes r) (take 32 pub)" if e: "?nm = []"
  proof -
    have pre: "length ([0xff, 0x03] :: byte list) = 2" by simp
    show ?thesis
      unfolding c e echo_unnamed_layout
      using key_share_at_layout(1) [OF pre p] by simp
  qed
  from named unnamed show ?thesis by blast
qed

theorem echo_public_name_field_witness:
  "(\<exists>r. mk_echoconfig sample_echo_world 0xff03 (Some ''ab'') 2000 False = Inr r
       \<and> name_chars (Some ''ab'') \<noteq> [] \<and> length (name_chars (Some ''ab'')) < 65536
       \<and> name_field_at 2 (config_bytes r) [0x61, 0x62]
       \<and> key_share_at 6 (config_bytes r) (replicate 32 7))
   \<and> (\<exists>r. mk_echoconfig sample_echo_world 0xff03 None 2000 False = Inr r
       \<and> name_chars None = [] \<and> key_share_at 2 (config_bytes r) (replicate 32 7))"
proof -
  obtain r where r: "mk_echoconfig sample_echo_world 0xff03 (Some ''ab'') 2000 False = Inr r"
    using sample_echo_named by blast
  obtain r' where r': "mk_echoconfig sample_echo_world 0xff03 None 2000 False = Inr r'"
    using sample_echo_unnamed by blast
  from echo_public_name_field [OF r sample_echo_kg]
  have "name_field_at 2 (config_bytes r) [0x61, 0x62]
      \<and> key_share_at 6 (config_bytes r) (replicate 32 7)"
    by (simp add: name_chars_def byte_of_char_def)
  moreover from echo_public_name_field [OF r' sample_echo_kg]
  have "key_share_at 2 (config_bytes r') (replicate 32 7)"
    by (simp add: name_chars_def)
  ultimately show ?thesis using r r' by (simp add: name_chars_def)
qed

subsection \<open>The KEM identifier\<close>

text \<open>
  C9. The two bytes right behind the key-share entry are the identifier divided by 16
  and its remainder modulo 16. For an identifier from 16 to 65535 these are not the two
  bytes of its big-endian 16-bit encoding.
\<close>

theorem echo_kem_id_bytes:
  assumes "mk_echoconfig w v public_name cap pn = Inr r" "hpke_kg w = Some (pub, pk)"
    and "off = (if name_chars public_name = [] then 2
                else 4 + length (name_chars public_name))"
  shows "key_share_at off (config_bytes r) (take 32 pub)
       \<and> take 2 (drop (off + 38) (config_bytes r))
           = [of_nat (HPKE_KEM_ID_25519 w div 16), of_nat (HPKE_KEM_ID_25519 w mod 16)]
       \<and> (16 \<le> HPKE_KEM_ID_25519 w \<and> HPKE_KEM_ID_25519 w < 65536 \<longrightarrow>
            take 2 (drop (off + 38) (config_bytes r))
              \<noteq> [of_nat (HPKE_KEM_ID_25519 w div 256), of_nat (HPKE_KEM_ID_25519 w)])"
proof -
  from mk_echoconfig_InrD [OF assms(1)] assms(2) have
    p: "32 \<le> length pub"
    and c: "config_bytes r
             = echo_assemble (HPKE_KEM_ID_25519 w) 0xff03 (name_chars public_name) pub"
    by auto
  let ?nm = "name_chars public_name"
  let ?K = "HPKE_KEM_ID_25519 w"
  have ks: "key_share_at off (config_bytes r) (take 32 pub)
      \<and> take 2 (drop (off + 38) (config_bytes r)) = [of_nat (?K div 16), of_nat (?K mod 16)]"
  proof (cases "?nm = []")
    case True
    have pre: "length ([0xff, 0x03] :: byte list) = off" using True assms(3) by simp
    show ?thesis
      unfolding c True echo_unnamed_layout
      using key_share_at_layout [OF pre p] by simp
  next
    case False
    have pre: "length ([0xff, 0x03] @ [of_nat (length ?nm div 256), of_nat (length ?nm)]
                 @ map byte_of_char ?nm :: byte list) = off"
      using False assms(3) by simp
    show ?thesis
      unfolding c echo_named_layout [OF False]
      using key_share_at_layout [OF pre p] by simp
  qed
  with nibbles_not_big_endian [of ?K] show ?thesis by auto
qed

theorem echo_kem_id_bytes_witness:
  "\<exists>r. mk_echoconfig sample_echo_world 0xff03 (Some ''ab'') 2000 False = Inr r
     \<and> key_share_at 6 (config_bytes r) (replicate 32 7)
     \<and> take 2 (drop 44 (config_bytes r)) = [0x02, 0x00]
     \<and> (16 :: nat) \<le> 0x20 \<and> (0x20 :: nat) < 65536
     \<and> take 2 (drop 44 (config_bytes r)) \<noteq> [0x00, 0x20]"
proof -
  obtain r where r: "mk_echoconfig sample_echo_world 0xff03 (Some ''ab'') 2000 False = Inr r"
    using sample_echo_named by blast
  have off: "(6 :: nat) = (if name_chars (Some ''ab'') = [] then 2
                else 4 + length (name_chars (Some ''ab'')))"
    by (simp add: name_chars_def)
  from echo_kem_id_bytes [OF r sample_echo_kg off] r show ?thesis
    by (simp add: sample_echo_world_def)
qed

subsection \<open>The destination of the Base64 text\<close>

text \<open>
  C7. The rendering is to succeed whenever the destination holds the encoding and one
  terminator, and to fail otherwise. The comparison \<^verbatim>\<open>b64len >= (*echoconfig_len-1)\<close>
  misses this twice. It is off by one: for the 68 characters of the sample structure a
  destination of 69 bytes makes the call return its line number, 181. And it runs after
  \<^verbatim>\<open>EVP_EncodeBlock\<close> has written: a name of 1446 characters gives a structure of 1498
  bytes, which fits \<^verbatim>\<open>bbuf\<close>, and an encoding of 2000 characters, whose terminator is
  stored behind a destination of 2000 bytes.
\<close>

theorem echo_render_guard_misses:
  "length (base64 (echo_assemble 0x20 0xff03 [] (replicate 32 7))) = 68
   \<and> 68 + 1 \<le> (69 :: nat)
   \<and> mk_echoconfig sample_echo_world 0xff03 None 69 False = Inl (Return 181)
   \<and> length (echo_assemble 0x20 0xff03 (replicate 1446 (CHR ''a'')) (replicate 32 7)) = 1498
   \<and> length (base64 (echo_assemble 0x20 0xff03 (replicate 1446 (CHR ''a''))
                 (replicate 32 7))) = 2000
   \<and> mk_echoconfig sample_echo_world 0xff03 (Some (replicate 1446 (CHR ''a''))) 2000 False
       = Inl Mem_fault"
  by (simp add: echo_defs)

section \<open>The name field read back\<close>

text \<open>
  C4, as stated: a name of 0 to 254 bytes is read back unchanged. A cover name that ends
  with a dot is stored with a zero in the place of the dot, and \<^verbatim>\<open>mk_echoconfig\<close>
  stores no field for an empty name, so that reading a name field at offset 2 yields 36
  bytes of the key-share entry.
\<close>

theorem name_round_trip_counterexample:
  "map_option (read_name_field 6) (emitted (mk_esnikeys sample_world dotted_options))
     = Some [0x61, 0x62, 0x00]
   \<and> cover_name dotted_options = Some ''ab.''
   \<and> map byte_of_char ''ab.'' = [0x61, 0x62, 0x2e]
   \<and> map_option (read_name_field 2)
         (encoded (mk_echoconfig sample_echo_world 0xff03 (Some []) 2000 False))
     = Some ([0x00, 0x1d, 0x00, 0x20] @ replicate 32 7)"
proof -
  obtain out frag where r: "mk_esnikeys sample_world dotted_options = Inr (out, frag)"
    using dotted_run by blast
  have "read_name_field 6 out = map byte_of_char (butlast ''ab.'' @ [CHR 0x00])"
    by (rule esnikeys_ff02_name_field(6) [OF r sample_versions(3,4)]) simp
  then have a: "map_option (read_name_field 6) (emitted (mk_esnikeys sample_world dotted_options))
     = Some [0x61, 0x62, 0x00]"
    by (simp add: r emitted_def byte_of_char_def)
  have b: "map_option (read_name_field 2)
         (encoded (mk_echoconfig sample_echo_world 0xff03 (Some []) 2000 False))
     = Some ([0x00, 0x1d, 0x00, 0x20] @ replicate 32 7)"
    by (simp add: echo_defs encoded_def read_name_field_def)
  from a b sample_versions(4) show ?thesis by (simp add: byte_of_char_def)
qed

text \<open>
  C4, amended. A cover name that does not end with a dot (a successful \<^verbatim>\<open>0xff02\<close> run
  has a name of 1 to 254 characters) is read back unchanged from offset 6 of the
  ESNIKeys structure, and a public name of 1 to 254 characters is read back unchanged
  from offset 2 of the ECHOConfig structure.
\<close>

theorem name_field_round_trip:
  "(mk_esnikeys w opt = Inr (out, frag) \<and> ekversion opt = 0xff02
      \<and> cover_name opt = Some name \<and> last name \<noteq> CHR ''.'' \<longrightarrow>
        1 \<le> length name \<and> length name \<le> 254
      \<and> read_name_field 6 out = map byte_of_char name)
   \<and> (mk_echoconfig ew v (Some name) cap pn = Inr r
      \<and> 1 \<le> length name \<and> length name \<le> 254 \<longrightarrow>
        read_name_field 2 (config_bytes r) = map byte_of_char name)"
proof -
  have esni: "1 \<le> length name \<and> length name \<le> 254
      \<and> read_name_field 6 out = map byte_of_char name"
    if run: "mk_esnikeys w opt = Inr (out, frag)" and v: "ekversion opt = 0xff02"
      and n: "cover_name opt = Some name" and nd: "last name \<noteq> CHR ''.''"
  proof -
    have s: "name = (if last name = CHR ''.'' then butlast name @ [CHR 0x00] else name)"
      using nd by simp
    note f = esnikeys_ff02_name_field [OF run v n s]
    have "0 < length name" using f(1) by simp
    with f(2,6) show ?thesis by (simp add: Suc_le_eq)
  qed
  have echo: "read_name_field 2 (config_bytes r) = map byte_of_char name"
    if run: "mk_echoconfig ew v (Some name) cap pn = Inr r"
      and l1: "1 \<le> length name" and l2: "length name \<le> 254"
  proof -
    from mk_echoconfig_InrD [OF run] obtain pub where
      c: "config_bytes r = echo_assemble (HPKE_KEM_ID_25519 ew) 0xff03 name pub"
      by (auto simp: name_chars_def)
    have ne: "name \<noteq> []" using l1 by auto
    have lt: "length (map byte_of_char name) < 65536" using l2 by simp
    show ?thesis
      unfolding c echo_named_layout [OF ne]
      using read_name_field_layout [OF lt] by simp
  qed
  from esni echo show ?thesis by blast
qed

theorem name_field_round_trip_witness:
  "(\<exists>out frag. mk_esnikeys sample_world sample_options = Inr (out, frag)
       \<and> ekversion sample_options = 0xff02 \<and> cover_name sample_options = Some ''ab''
       \<and> last ''ab'' \<noteq> CHR ''.'' \<and> read_name_field 6 out = map byte_of_char ''ab'')
   \<and> (\<exists>r. mk_echoconfig sample_echo_world 0xff03 (Some ''ab'') 2000 False = Inr r
       \<and> 1 \<le> length ''ab'' \<and> length ''ab'' \<le> 254
       \<and> read_name_field 2 (config_bytes r) = map byte_of_char ''ab'')"
proof -
  obtain out frag where a: "mk_esnikeys sample_world sample_options = Inr (out, frag)"
    using sample_run by blast
  obtain r where b: "mk_echoconfig sample_echo_world 0xff03 (Some ''ab'') 2000 False = Inr r"
    using sample_echo_named by blast
  have v: "ekversion sample_options = 0xff02"
    and n: "cover_name sample_options = Some ''ab''"
    by (simp_all add: sample_defs)
  have d: "last ''ab'' \<noteq> CHR ''.''" and l: "1 \<le> length ''ab''" "length ''ab'' \<le> 254"
    by simp_all
  note t = name_field_round_trip [of sample_world sample_options out frag "''ab''"
             sample_echo_world "0xff03" 2000 False r]
  from t a b v n d l show ?thesis by blast
qed

section \<open>The zone fragment\<close>

subsection \<open>Lines of the folded form\<close>

lemma lines_of_not_Nil: "lines_of t \<noteq> []"
  by (cases t) (simp_all split: list.splits)

lemma lines_of_prefix:
  "CHR 0x0A \<notin> set a \<Longrightarrow> lines_of (a @ t) = (a @ hd (lines_of t)) # tl (lines_of t)"
proof (induction a)
  case Nil
  show ?case using lines_of_not_Nil [of t] by simp
next
  case (Cons c a)
  then show ?case by auto
qed

lemma lines_of_final_newline: "lines_of (t @ [CHR 0x0A]) = lines_of t @ [[]]"
proof (induction t)
  case Nil
  show ?case by simp
next
  case (Cons c t)
  then show ?case using lines_of_not_Nil [of t] by (simp split: list.splits)
qed

lemma digit_char_hex: "n < 16 \<Longrightarrow> digit_char n \<in> set ''0123456789abcdef''"
  unfolding digit_char_def by (rule nth_mem) simp

lemma digit_char_plain:
  assumes "n < 16"
  shows "digit_char n \<noteq> CHR 0x0A" and "digit_char n \<noteq> CHR '' ''"
  using digit_char_hex [OF assms] by auto

lemma hex2_plain:
  "\<exists>d e. hex2 b = [d, e] \<and> d \<noteq> CHR 0x0A \<and> d \<noteq> CHR '' '' \<and> e \<noteq> CHR 0x0A"
proof -
  have "unat b < 2 ^ 8" using unsigned_less [of b, where 'a = nat] by simp
  then have "unat b < 256" by simp
  then have "unat b div 16 < 16" "unat b mod 16 < 16" by simp_all
  then show ?thesis unfolding hex2_def using digit_char_plain by blast
qed

lemma dec_plain: "CHR 0x0A \<notin> set (dec n)"
proof (induction n rule: dec.induct)
  case (1 n)
  show ?case
  proof (cases "n < 10")
    case True
    then have "n < 16" by simp
    from digit_char_plain(1) [OF this] True show ?thesis by (simp add: dec.simps)
  next
    case False
    have "n mod 10 < 16" by simp
    from digit_char_plain(1) [OF this] 1 False show ?thesis
      by (subst dec.simps) simp
  qed
qed

lemma rr_header_plain:
  "CHR 0x0A \<notin> set owner \<Longrightarrow> CHR 0x0A \<notin> set (rr_header owner tc blen)"
  by (simp add: rr_header_def dec_plain)

lemma indent_padded:
  "d \<noteq> CHR '' '' \<Longrightarrow> indent (replicate n (CHR '' '') @ replicate 18 (CHR '' '') @ d # t) = n + 18"
  by (simp add: indent_def takeWhile_append)


lemma lines_of_newline: "lines_of (CHR 0x0A # t) = [] # lines_of t"
  by simp

declare lines_of.simps [simp del]

lemma fold_hex_step:
  "fold_hex pad (b # bs) i @ post
     = (if i mod 16 = 0
        then CHR 0x0A # ((pad @ replicate 18 (CHR '' '') @ hex2 b) @ fold_hex pad bs (Suc i) @ post)
        else ((if i mod 2 = 0 then '' '' else []) @ hex2 b) @ fold_hex pad bs (Suc i) @ post)"
  by simp

lemma fold_hex_tail_lines:
  assumes "CHR 0x0A \<notin> set post"
  shows "\<forall>l \<in> set (tl (lines_of (fold_hex (replicate n (CHR '' '')) bs i @ post))).
           indent l = n + 18"
proof (induction bs arbitrary: i)
  case Nil
  from lines_of_prefix [OF assms, of "[]"] show ?case by (simp add: lines_of.simps)
next
  case (Cons b bs)
  obtain d e where h: "hex2 b = [d, e]" "d \<noteq> CHR 0x0A" "d \<noteq> CHR '' ''" "e \<noteq> CHR 0x0A"
    using hex2_plain by blast
  let ?pad = "replicate n (CHR '' '')"
  let ?rest = "fold_hex ?pad bs (Suc i) @ post"
  show ?case
  proof (cases "i mod 16 = 0")
    case True
    let ?row = "?pad @ replicate 18 (CHR '' '') @ hex2 b"
    have nl: "CHR 0x0A \<notin> set ?row" using h by simp
    have e: "fold_hex ?pad (b # bs) i @ post = CHR 0x0A # (?row @ ?rest)"
      unfolding fold_hex_step using True by simp
    have t: "tl (lines_of (fold_hex ?pad (b # bs) i @ post))
               = (?row @ hd (lines_of ?rest)) # tl (lines_of ?rest)"
      unfolding e lines_of_newline lines_of_prefix [OF nl] by simp
    have "indent (?row @ hd (lines_of ?rest)) = n + 18"
      using indent_padded [OF h(3), of n "e # hd (lines_of ?rest)"] by (simp add: h(1))
    then show ?thesis unfolding t using Cons.IH [of "Suc i"] by simp
  next
    case False
    let ?row = "(if i mod 2 = 0 then '' '' else []) @ hex2 b"
    have nl: "CHR 0x0A \<notin> set ?row" using h by simp
    have e: "fold_hex ?pad (b # bs) i @ post = ?row @ ?rest"
      unfolding fold_hex_step using False by simp
    have t: "tl (lines_of (fold_hex ?pad (b # bs) i @ post)) = tl (lines_of ?rest)"
      unfolding e lines_of_prefix [OF nl] by simp
    show ?thesis unfolding t using Cons.IH [of "Suc i"] by simp
  qed
qed

lemma row_start: "i mod 16 = 0 \<Longrightarrow> (Suc i + 15) div 16 = Suc ((i + 15) div 16)"
proof -
  assume "i mod 16 = 0"
  then have "16 dvd i" by (simp add: dvd_eq_mod_eq_0)
  then obtain q where q: "i = 16 * q" ..
  show ?thesis unfolding q by simp
qed

lemma row_inside: "i mod 16 \<noteq> 0 \<Longrightarrow> (Suc i + 15) div 16 = (i + 15) div 16"
proof -
  assume a: "i mod 16 \<noteq> 0"
  define q where "q = i div 16"
  define r where "r = i mod 16"
  have i: "i = 16 * q + r" by (simp add: q_def r_def)
  have "0 < r" "r < 16" using a by (simp_all add: r_def)
  then obtain s where s: "r = Suc s" "s < 15" by (cases r) simp_all
  have "Suc i + 15 = s + 1 + (q + 1) * 16" by (simp add: i s)
  then have l: "(Suc i + 15) div 16 = q + 1" using s(2) by simp
  have "i + 15 = s + (q + 1) * 16" by (simp add: i s)
  then have "(i + 15) div 16 = q + 1" using s(2) by simp
  with l show ?thesis by simp
qed

lemma length_lines_of_prefix:
  "CHR 0x0A \<notin> set a \<Longrightarrow> length (lines_of (a @ t)) = length (lines_of t)"
  using lines_of_not_Nil [of t] by (simp add: lines_of_prefix)

lemma fold_hex_line_count:
  assumes "CHR 0x0A \<notin> set post" and pad: "CHR 0x0A \<notin> set pad"
  shows "length (lines_of (fold_hex pad bs i @ post)) + (i + 15) div 16
           = Suc ((i + length bs + 15) div 16)"
proof (induction bs arbitrary: i)
  case Nil
  from length_lines_of_prefix [OF assms(1), of "[]"] show ?case by (simp add: lines_of.simps)
next
  case (Cons b bs)
  obtain d e where h: "hex2 b = [d, e]" "d \<noteq> CHR 0x0A" "d \<noteq> CHR '' ''" "e \<noteq> CHR 0x0A"
    using hex2_plain by blast
  let ?rest = "fold_hex pad bs (Suc i) @ post"
  have ih: "length (lines_of ?rest) + (Suc i + 15) div 16
              = Suc ((i + length (b # bs) + 15) div 16)"
    using Cons.IH [of "Suc i"] by simp
  show ?case
  proof (cases "i mod 16 = 0")
    case True
    let ?row = "pad @ replicate 18 (CHR '' '') @ hex2 b"
    have nl: "CHR 0x0A \<notin> set ?row" using h pad by simp
    have e: "fold_hex pad (b # bs) i @ post = CHR 0x0A # (?row @ ?rest)"
      unfolding fold_hex_step using True by simp
    have "length (lines_of (fold_hex pad (b # bs) i @ post)) = Suc (length (lines_of ?rest))"
      unfolding e lines_of_newline using length_lines_of_prefix [OF nl] by simp
    with ih show ?thesis unfolding row_start [OF True] by simp
  next
    case False
    let ?row = "(if i mod 2 = 0 then '' '' else []) @ hex2 b"
    have nl: "CHR 0x0A \<notin> set ?row" using h by simp
    have e: "fold_hex pad (b # bs) i @ post = ?row @ ?rest"
      unfolding fold_hex_step using False by simp
    have "length (lines_of (fold_hex pad (b # bs) i @ post)) = length (lines_of ?rest)"
      unfolding e by (rule length_lines_of_prefix [OF nl])
    with ih show ?thesis unfolding row_inside [OF False] by simp
  qed
qed


subsection \<open>The indentation of the folded lines\<close>

text \<open>A sample: seventeen bytes for the owner \<^verbatim>\<open>ab\<close>.\<close>

lemma dec_samples: "dec 65439 = ''65439''" "dec 17 = ''17''"
  by (simp_all add: dec.simps digit_char_def)

lemma spaces_18:
  "replicate 18 c = [c, c, c, c, c, c, c, c, c, c, c, c, c, c, c, c, c, c]"
  by (simp add: numeral_eq_Suc)

lemma spaces_20: "replicate 20 c = c # c # replicate 18 c"
  by (simp add: numeral_eq_Suc)

lemma sample_fragment:
  "fp_esni_prr (Some [0, 1, 2, 3, 4, 5, 6, 7, 8, 9, 10, 11, 12, 13, 14, 15, 16]) 65439 ''ab''
     = Inr (''ab. IN TYPE65439 '' @ [CHR 0x5C] @ ''# 17 ('' @ [CHR 0x0A]
            @ replicate 20 (CHR '' '') @ ''0001 0203 0405 0607 0809 0a0b 0c0d 0e0f'' @ [CHR 0x0A]
            @ replicate 20 (CHR '' '') @ ''10 )'' @ [CHR 0x0A])"
proof -
  define bs :: "byte list" where "bs = [0, 1, 2, 3, 4, 5, 6, 7, 8, 9, 10, 11, 12, 13, 14, 15, 16]"
  have l: "length bs = 17" by (simp add: bs_def)
  have "fp_esni_prr (Some bs) 65439 ''ab''
          = Inr (rr_header ''ab'' 65439 17 @ '' ('' @ fold_hex ''  '' bs 0 @ '' )'' @ [CHR 0x0A])"
    by (simp add: fp_esni_prr_def l MAX_ESNI_COVER_NAME_def)
  also have "rr_header ''ab'' 65439 17 = ''ab. IN TYPE65439 '' @ [CHR 0x5C] @ ''# 17''"
    by (simp add: rr_header_def dec_samples)
  also have "fold_hex ''  '' bs 0
      = [CHR 0x0A] @ replicate 20 (CHR '' '') @ ''0001 0203 0405 0607 0809 0a0b 0c0d 0e0f''
        @ [CHR 0x0A] @ replicate 20 (CHR '' '') @ ''10''"
    by (simp add: bs_def hex2_def digit_char_def spaces_20)
  finally show ?thesis by (simp add: bs_def)
qed

text \<open>
  C8, as stated: a folded line starts with exactly as many spaces as the owner name has
  characters. The format of a new line is \<^verbatim>\<open>"\n%s"\<close> followed by eighteen spaces: for
  the owner \<^verbatim>\<open>ab\<close> both folded lines start with 20 spaces, not 2.
\<close>

theorem folded_indent_counterexample:
  "map_sum id continuation_lines
     (fp_esni_prr (Some [0, 1, 2, 3, 4, 5, 6, 7, 8, 9, 10, 11, 12, 13, 14, 15, 16]) 65439 ''ab'')
     = Inr [replicate 20 (CHR '' '') @ ''0001 0203 0405 0607 0809 0a0b 0c0d 0e0f'',
            replicate 20 (CHR '' '') @ ''10 )'']
   \<and> map_sum id (map indent \<circ> continuation_lines)
     (fp_esni_prr (Some [0, 1, 2, 3, 4, 5, 6, 7, 8, 9, 10, 11, 12, 13, 14, 15, 16]) 65439 ''ab'')
     = Inr [20, 20]
   \<and> length ''ab'' = 2"
  unfolding sample_fragment
  by (simp add: continuation_lines_def lines_of.simps indent_def spaces_20 spaces_18)

text \<open>
  C8, amended. In the folded form (a buffer of more than 16 bytes, an owner name without
  a newline) there is one line per block of 16 bytes after the first line, and each
  starts with as many spaces as the owner name has characters and eighteen more, the
  width of \<^verbatim>\<open>. IN TYPE65439 \# \<close>, before its first hex digit.
\<close>

theorem folded_lines_indent:
  assumes "fp_esni_prr (Some bs) typecode owner = Inr out" "16 < length bs"
    and "CHR 0x0A \<notin> set owner"
  shows "length (continuation_lines out) = (length bs + 15) div 16
       \<and> (\<forall>l \<in> set (continuation_lines out). indent l = length owner + 18)"
proof -
  let ?pad = "replicate (length owner) (CHR '' '')"
  let ?H = "rr_header owner typecode (length bs) @ '' (''"
  let ?L = "lines_of (fold_hex ?pad bs 0 @ '' )'')"
  have out: "out = (?H @ fold_hex ?pad bs 0 @ '' )'') @ [CHR 0x0A]"
    using assms(1,2) unfolding fp_esni_prr_def Let_def by (simp split: if_splits)
  have H: "CHR 0x0A \<notin> set ?H"
    using rr_header_plain [OF assms(3)] by simp
  have post: "CHR 0x0A \<notin> set '' )''" by simp
  have pad: "CHR 0x0A \<notin> set ?pad" by simp
  have "lines_of out = ((?H @ hd ?L) # tl ?L) @ [[]]"
    unfolding out lines_of_final_newline lines_of_prefix [OF H] ..
  then have c: "continuation_lines out = tl ?L"
    by (simp add: continuation_lines_def)
  have "length ?L = Suc ((length bs + 15) div 16)"
    using fold_hex_line_count [OF post pad, of bs 0] by simp
  then have n: "length (tl ?L) = (length bs + 15) div 16" by simp
  from fold_hex_tail_lines [OF post, of "length owner" bs 0] n show ?thesis
    unfolding c by simp
qed

theorem folded_lines_indent_witness:
  "\<exists>out. fp_esni_prr (Some [0, 1, 2, 3, 4, 5, 6, 7, 8, 9, 10, 11, 12, 13, 14, 15, 16])
            65439 ''ab'' = Inr out
     \<and> 16 < length [0, 1, 2, 3, 4, 5, 6, 7, 8, 9, 10, 11, 12, 13, 14, 15, 16 :: byte]
     \<and> CHR 0x0A \<notin> set ''ab''
     \<and> length (continuation_lines out) = 2
     \<and> list_all (\<lambda>l. indent l = 20) (continuation_lines out)"
proof -
  obtain out where
    r: "fp_esni_prr (Some [0, 1, 2, 3, 4, 5, 6, 7, 8, 9, 10, 11, 12, 13, 14, 15, 16])
          65439 ''ab'' = Inr out"
    by (simp add: fp_esni_prr_def MAX_ESNI_COVER_NAME_def)
  have l: "16 < length [0, 1, 2, 3, 4, 5, 6, 7, 8, 9, 10, 11, 12, 13, 14, 15, 16 :: byte]"
    by simp
  have o: "CHR 0x0A \<notin> set ''ab''" by simp
  from folded_lines_indent [OF r l o] r show ?thesis
    by (simp add: list_all_iff)
qed

end
